theory Spec2Isabelle
  imports Complex_Main "HOL-Library.AList" "HOL-Library.List_Lexorder" "HOL-Library.Char_ord"
    "HOL-Library.Product_Lexorder"
begin

section \<open>Numbers and errors\<close>

text \<open>
  Python floats are modelled as exact rationals: every arithmetic step of the source is
  kept, every rounding the source asks for (\<open>round_val\<close>, \<open>//\<close>) is written out, and the
  binary representation error of a float is left out.
  Python exceptions are values of \<open>error\<close>; a function that can raise returns
  \<open>error + 'a\<close> with \<open>Inl\<close> for the exception.
\<close>

datatype error = KeyError | IndexError | ZeroDivisionError | AssertionError | ValueError

definition round_half_even :: "rat \<Rightarrow> int" where
  "round_half_even x =
     (let f = \<lfloor>x\<rfloor>; d = x - of_int f
      in if d < 1 / 2 then f else if 1 / 2 < d then f + 1
         else if even f then f else f + 1)"

text \<open>
  Modelled from the spec: \<open>tradepy.utils.round_val\<close> is not among the sources. The
  spec says of every decorated computation that it is "rounded to 2 decimals"; the
  tie rule is the one of Python's built-in \<open>round\<close> (to the even neighbour).
\<close>

definition round_val :: "rat \<Rightarrow> rat" where
  "round_val x = of_int (round_half_even (x * 100)) / 100"

text \<open>
  Modelled from the spec: \<open>tradepy.utils.calc_pct_chg\<close> is not among the sources. The
  spec calls it the "percentage change of [a price] vs. entry price" and has every
  percentage-change computation "rounded to 2 decimals at the point of calculation".
  Dividing by a zero base price raises.
\<close>

definition calc_pct_chg :: "rat \<Rightarrow> rat \<Rightarrow> error + rat" where
  "calc_pct_chg base_price then_price =
     (if base_price = 0 then Inl ZeroDivisionError
      else Inr (round_val (100 * (then_price - base_price) / base_price)))"

section \<open>Position (core/position.py)\<close>

record position =
  timestamp :: string
  code :: string
  company :: string
  price :: rat
  shares :: rat
  latest_price :: rat
  pos_id :: string

text \<open>
  \<open>__post_init__\<close>: a falsy \<open>latest_price\<close> (0) becomes the entry price, a falsy
  \<open>id\<close> (the empty string) becomes \<open>company-<uuid piece>\<close>. The piece of
  \<open>uuid.uuid4()\<close> is random; it is an argument here.
\<close>

definition post_init :: "string \<Rightarrow> position \<Rightarrow> position" where
  "post_init uuid_piece p =
     (let p1 = (if latest_price p = 0 then p\<lparr>latest_price := price p\<rparr> else p)
      in if pos_id p1 = [] then p1\<lparr>pos_id := company p1 @ ''-'' @ uuid_piece\<rparr> else p1)"

definition total_value_at :: "position \<Rightarrow> rat \<Rightarrow> rat" where
  "total_value_at p x = round_val (x * shares p)"

definition cost :: "position \<Rightarrow> rat" where
  "cost p = round_val (total_value_at p (price p))"

definition profit_or_loss_at :: "position \<Rightarrow> rat \<Rightarrow> rat" where
  "profit_or_loss_at p x = round_val (total_value_at p x - cost p)"

definition chg_at :: "position \<Rightarrow> rat \<Rightarrow> rat" where
  "chg_at p x = round_val (x - price p)"

definition pct_chg_at :: "position \<Rightarrow> rat \<Rightarrow> error + rat" where
  "pct_chg_at p x = map_sum id round_val (calc_pct_chg (price p) x)"

definition price_at_pct_change :: "position \<Rightarrow> rat \<Rightarrow> rat" where
  "price_at_pct_change p pct = round_val (price p * (1 + pct * (1 / 100)))"

definition update_price :: "position \<Rightarrow> rat \<Rightarrow> position" where
  "update_price p x = p\<lparr>latest_price := x\<rparr>"

definition close :: "position \<Rightarrow> rat \<Rightarrow> position" where
  "close p x = p\<lparr>latest_price := x\<rparr>"

section \<open>Holdings\<close>

text \<open>
  Modelled from the spec: \<open>tradepy.backtesting.holdings\<close> is not among the sources.
  The spec describes Holdings as "a collection of open Positions indexed by symbol,
  supporting lookup of 'is this symbol currently held', iteration over all held
  positions, and aggregate valuation (sum of mark value)". It is a Python dict from
  symbol to position, here an association list in insertion order with one entry for
  each key: assigning to a held key replaces the entry where it stands.
\<close>

type_synonym holdings = "(string \<times> position) list"

definition position_codes :: "holdings \<Rightarrow> string set" where
  "position_codes h = fst ` set h"

text \<open>
  Modelled from the spec: "sum of held positions' (latest price \<times> shares)".
\<close>

definition get_total_worth :: "holdings \<Rightarrow> rat" where
  "get_total_worth h = sum_list (map (\<lambda>(c, p). latest_price p * shares p) h)"

text \<open>
  Modelled from the spec: Buy "sum raw cost (price \<times> shares) across positions ...
  insert positions into Holdings"; the sum is what \<open>Account.buy\<close> receives.
\<close>

definition holdings_buy :: "holdings \<Rightarrow> position list \<Rightarrow> holdings \<times> rat" where
  "holdings_buy h ps =
     (fold (\<lambda>p. AList.update (code p) p) ps h,
      sum_list (map (\<lambda>p. price p * shares p) ps))"

text \<open>
  Modelled from the spec: Sell "sum raw proceeds (latest price \<times> shares) ... remove
  positions from Holdings".
\<close>

definition holdings_sell :: "holdings \<Rightarrow> position list \<Rightarrow> holdings \<times> rat" where
  "holdings_sell h ps =
     (fold (\<lambda>p. AList.delete (code p)) ps h,
      sum_list (map (\<lambda>p. latest_price p * shares p) ps))"

text \<open>
  Modelled from the spec: Mark-to-market "update every held position's latest price
  from that day's close-price lookup". The lookup is the caller's; when it raises for
  a position, the exception leaves \<open>tick\<close>.
\<close>

fun holdings_tick :: "(string \<Rightarrow> error + rat) \<Rightarrow> holdings \<Rightarrow> error + holdings" where
  "holdings_tick price_lookup [] = Inr []"
| "holdings_tick price_lookup ((c, p) # h) =
     (case price_lookup (code p) of
        Inl e \<Rightarrow> Inl e
      | Inr x \<Rightarrow>
          (case holdings_tick price_lookup h of
             Inl e \<Rightarrow> Inl e
           | Inr h' \<Rightarrow> Inr ((c, update_price p x) # h')))"

section \<open>Account (backtesting/account.py)\<close>

record account =
  buy_commission_rate :: rat
  sell_commission_rate :: rat
  cash_amount :: rat
  holdings :: holdings

definition add_buy_commissions :: "account \<Rightarrow> rat \<Rightarrow> rat" where
  "add_buy_commissions a amount =
     round_val (amount * (1 + buy_commission_rate a * (1 / 100)))"

definition take_sell_commissions :: "account \<Rightarrow> rat \<Rightarrow> rat" where
  "take_sell_commissions a amount =
     round_val (amount * (1 - sell_commission_rate a * (1 / 100)))"

text \<open>
  \<open>if cost_total := self.holdings.buy(positions)\<close>: the holdings are updated by the
  call in the condition; cash moves only when the total is truthy (not 0).
\<close>

definition account_buy :: "account \<Rightarrow> position list \<Rightarrow> account" where
  "account_buy a ps =
     (case holdings_buy (holdings a) ps of
        (h, cost_total) \<Rightarrow>
          if cost_total \<noteq> 0
          then a\<lparr>cash_amount := cash_amount a - add_buy_commissions a cost_total,
                 holdings := h\<rparr>
          else a\<lparr>holdings := h\<rparr>)"

definition account_sell :: "account \<Rightarrow> position list \<Rightarrow> account" where
  "account_sell a ps =
     (case holdings_sell (holdings a) ps of
        (h, close_total) \<Rightarrow>
          if close_total \<noteq> 0
          then a\<lparr>cash_amount := cash_amount a + take_sell_commissions a close_total,
                 holdings := h\<rparr>
          else a\<lparr>holdings := h\<rparr>)"

definition clear :: "account \<Rightarrow> account" where
  "clear a = account_sell a (map snd (holdings a))"

text \<open>\<open>any(self.holdings)\<close> iterates (code, position) pairs, all truthy.\<close>

definition account_tick :: "account \<Rightarrow> (string \<Rightarrow> error + rat) \<Rightarrow> error + account" where
  "account_tick a price_lookup =
     (if holdings a \<noteq> []
      then map_sum id (\<lambda>h. a\<lparr>holdings := h\<rparr>) (holdings_tick price_lookup (holdings a))
      else Inr a)"

definition get_total_asset_value :: "account \<Rightarrow> rat" where
  "get_total_asset_value a = get_total_worth (holdings a) + cash_amount a"

definition get_positions_value :: "account \<Rightarrow> rat" where
  "get_positions_value a = get_total_worth (holdings a)"

subsection \<open>Sequences of ledger operations\<close>

datatype ledger_op = Buy "position list" | Sell "position list"

fun apply_op :: "account \<Rightarrow> ledger_op \<Rightarrow> account" where
  "apply_op a (Buy ps) = account_buy a ps"
| "apply_op a (Sell ps) = account_sell a ps"

fun apply_ops :: "account \<Rightarrow> ledger_op list \<Rightarrow> account" where
  "apply_ops a [] = a"
| "apply_ops a (x # xs) = apply_ops (apply_op a x) xs"

text \<open>The raw total of an operation: what \<open>Holdings.buy\<close> / \<open>Holdings.sell\<close> return.\<close>

fun op_total :: "ledger_op \<Rightarrow> rat" where
  "op_total (Buy ps) = sum_list (map (\<lambda>p. price p * shares p) ps)"
| "op_total (Sell ps) = sum_list (map (\<lambda>p. latest_price p * shares p) ps)"

text \<open>
  What an operation takes out of the account's value: the rounded commission-inclusive
  debit less the raw cost on a buy, the raw proceeds less the rounded net credit on a
  sell.
\<close>

fun charged :: "account \<Rightarrow> ledger_op \<Rightarrow> rat" where
  "charged a (Buy ps) = add_buy_commissions a (op_total (Buy ps)) - op_total (Buy ps)"
| "charged a (Sell ps) = op_total (Sell ps) - take_sell_commissions a (op_total (Sell ps))"

fun total_charged :: "account \<Rightarrow> ledger_op list \<Rightarrow> rat" where
  "total_charged a [] = 0"
| "total_charged a (x # xs) = charged a x + total_charged (apply_op a x) xs"

text \<open>
  The operations the simulator issues: a buy of fresh positions (marked at their entry
  price, one for each symbol, none of them held), a sell of positions as they are held.
\<close>

fun op_ok :: "account \<Rightarrow> ledger_op \<Rightarrow> bool" where
  "op_ok a (Buy ps) =
     (distinct (map code ps) \<and>
      (\<forall>p \<in> set ps. code p \<notin> position_codes (holdings a) \<and> latest_price p = price p))"
| "op_ok a (Sell ps) =
     (distinct (map code ps) \<and>
      (\<forall>p \<in> set ps. map_of (holdings a) (code p) = Some p))"

fun ops_ok :: "account \<Rightarrow> ledger_op list \<Rightarrow> bool" where
  "ops_ok a [] = True"
| "ops_ok a (x # xs) = (op_ok a x \<and> ops_ok (apply_op a x) xs)"

definition whole_cents :: "rat \<Rightarrow> bool" where
  "whole_cents x = (round_val x = x)"

section \<open>Strategy (backtesting/strategy.py)\<close>

text \<open>
  The strategy reads its parameters from the shared context (\<open>__getattr__\<close> delegates
  to \<open>self.ctx\<close>); \<open>tradepy.backtesting.context\<close> is not among the sources, the
  parameters are the ones the strategy and the simulator read.
\<close>

record trading_context =
  stop_loss :: rat
  take_profit :: rat
  max_position_opens :: int
  max_position_size :: rat
  trading_unit :: rat

text \<open>
  One row of the bar frame: the index \<open>(timestamp, code)\<close>, the columns of
  \<open>TickData\<close>, the company name and the indicator columns by name. The column
  \<open>pct_chg\<close> is the one place where the pipeline divides by a data value, so it is
  the one column that can hold \<open>inf\<close>: it is a rational or \<open>Infinite\<close> (\<open>NaN\<close> is
  filled with 0 where it arises).
\<close>

datatype xfloat = Finite rat | Infinite

record bar =
  bar_timestamp :: string
  bar_code :: string
  bar_company :: string
  bar_open :: rat
  bar_high :: rat
  bar_low :: rat
  bar_close :: rat
  bar_chg :: rat
  bar_pct_chg :: xfloat
  bar_indicators :: "(string \<times> rat) list"

text \<open>A method that ends without \<open>return\<close> gives \<open>None\<close>.\<close>

definition should_stop_loss :: "trading_context \<Rightarrow> bar \<Rightarrow> position \<Rightarrow> error + rat option" where
  "should_stop_loss ctx tick pos =
     (case calc_pct_chg (price pos) (bar_open tick) of
        Inl e \<Rightarrow> Inl e
      | Inr open_pct_chg \<Rightarrow>
          if open_pct_chg \<le> - stop_loss ctx then Inr (Some (bar_open tick))
          else
            (case calc_pct_chg (price pos) (bar_low tick) of
               Inl e \<Rightarrow> Inl e
             | Inr low_pct_chg \<Rightarrow>
                 if low_pct_chg \<le> - stop_loss ctx
                 then Inr (Some (price_at_pct_change pos (- stop_loss ctx)))
                 else Inr None))"

definition should_take_profit :: "trading_context \<Rightarrow> bar \<Rightarrow> position \<Rightarrow> error + rat option" where
  "should_take_profit ctx tick pos =
     (case calc_pct_chg (price pos) (bar_open tick) of
        Inl e \<Rightarrow> Inl e
      | Inr open_pct_chg \<Rightarrow>
          if take_profit ctx \<le> open_pct_chg then Inr (Some (bar_open tick))
          else
            (case calc_pct_chg (price pos) (bar_high tick) of
               Inl e \<Rightarrow> Inl e
             | Inr high_pct_chg \<Rightarrow>
                 if take_profit ctx \<le> high_pct_chg
                 then Inr (Some (price_at_pct_change pos (take_profit ctx)))
                 else Inr None))"

subsection \<open>Random draws\<close>

text \<open>
  \<open>DataFrame.sample(n)\<close> draws \<open>n\<close> rows without replacement from numpy's global
  generator. The generator's output is an argument: \<open>draw k\<close> is its \<open>k\<close>-th number,
  and each pick takes the row at \<open>draw k mod\<close> (rows left). Every choice of \<open>n\<close> rows
  in every order is the result for some \<open>draw\<close>. A negative \<open>n\<close> or one above the number
  of rows raises \<open>ValueError\<close>.
\<close>

fun pick_rows :: "(nat \<Rightarrow> nat) \<Rightarrow> nat \<Rightarrow> 'a list \<Rightarrow> nat \<Rightarrow> 'a list" where
  "pick_rows draw k xs 0 = []"
| "pick_rows draw k xs (Suc n) =
     (if xs = [] then []
      else let i = draw k mod length xs
           in xs ! i # pick_rows draw (Suc k) (take i xs @ drop (Suc i) xs) n)"

definition sample :: "(nat \<Rightarrow> nat) \<Rightarrow> nat \<Rightarrow> 'a list \<Rightarrow> int \<Rightarrow> error + 'a list" where
  "sample draw k df n =
     (if n < 0 \<or> int (length df) < n then Inl ValueError
      else Inr (pick_rows draw k df (nat n)))"

text \<open>
  \<open>bars_df.loc[buy_indices]\<close>: the rows at the given index labels, in the order of the
  labels; a label that is not in the index raises \<open>KeyError\<close>. A label is the pair
  \<open>(timestamp, code)\<close>.
\<close>

definition bar_index :: "bar \<Rightarrow> string \<times> string" where
  "bar_index r = (bar_timestamp r, bar_code r)"

fun loc_rows :: "bar list \<Rightarrow> (string \<times> string) list \<Rightarrow> error + bar list" where
  "loc_rows df [] = Inr []"
| "loc_rows df (i # ixs) =
     (case filter (\<lambda>r. bar_index r = i) df of
        [] \<Rightarrow> Inl KeyError
      | rs \<Rightarrow> (case loc_rows df ixs of Inl e \<Rightarrow> Inl e | Inr rest \<Rightarrow> Inr (rs @ rest)))"

text \<open>
  \<open>get_pool_and_budget\<close>. Above the limit the pool is replaced by a sample of
  \<open>bars_df\<close>, the whole frame of the day, as the source has it. \<open>budget // len(pool_df)\<close>
  raises on an empty pool.
\<close>

definition get_pool_and_budget ::
  "trading_context \<Rightarrow> account \<Rightarrow> (nat \<Rightarrow> nat) \<Rightarrow> nat \<Rightarrow> bar list \<Rightarrow> (string \<times> string) list \<Rightarrow> rat
     \<Rightarrow> error + bar list \<times> rat" where
  "get_pool_and_budget ctx acct draw k bars_df buy_indices budget =
     (case loc_rows bars_df buy_indices of
        Inl e \<Rightarrow> Inl e
      | Inr pool0 \<Rightarrow>
          (case (if max_position_opens ctx < int (length pool0)
                 then sample draw k bars_df (max_position_opens ctx)
                 else Inr pool0) of
             Inl e \<Rightarrow> Inl e
           | Inr pool_df \<Rightarrow>
               if pool_df = [] then Inl ZeroDivisionError
               else
                 let min_position_allocation =
                       rat_of_int \<lfloor>budget / of_nat (length pool_df)\<rfloor>;
                     max_position_value = max_position_size ctx * get_total_asset_value acct
                 in if max_position_value < min_position_allocation
                    then Inr (pool_df, of_nat (length pool_df) * max_position_value)
                    else Inr (pool_df, budget)))"

subsection \<open>Sizing\<close>

text \<open>
  A row of \<open>pool_df\<close> with the two columns \<open>generate_positions\<close> adds. Shares are
  counted in lots in \<open>trade_shares\<close>.
\<close>

record pool_row =
  row :: bar
  trade_price :: rat
  trade_shares :: rat

text \<open>
  The loop that hands out the remaining budget, in the order of the sorted frame:
  \<open>residual_shares := remaining_budget // row.trade_price\<close>, added when truthy.
\<close>

fun redistribute :: "rat \<Rightarrow> pool_row list \<Rightarrow> pool_row list \<times> rat" where
  "redistribute remaining_budget [] = ([], remaining_budget)"
| "redistribute remaining_budget (r # rs) =
     (let residual_shares = rat_of_int \<lfloor>remaining_budget / trade_price r\<rfloor>
      in if residual_shares \<noteq> 0
         then (case redistribute (remaining_budget - residual_shares * trade_price r) rs of
                 (rs', rem') \<Rightarrow>
                   (r\<lparr>trade_shares := trade_shares r + residual_shares\<rparr> # rs', rem'))
         else (case redistribute remaining_budget rs of (rs', rem') \<Rightarrow> (r # rs', rem')))"

text \<open>The value of the lots a frame holds: \<open>(trade_price * trade_shares).sum()\<close>.\<close>

definition rows_cost :: "pool_row list \<Rightarrow> rat" where
  "rows_cost rs = sum_list (map (\<lambda>r. trade_price r * trade_shares r) rs)"

text \<open>
  The frame after the loop, and the budget left. \<open>sort_values\<close> is modelled by a stable
  sort on the negated key (pandas leaves the order of equal keys open). A zero
  \<open>trade_price\<close> makes pandas divide by zero into \<open>inf\<close>/\<open>NaN\<close>, which the rationals do
  not have: the model stops there with \<open>ZeroDivisionError\<close>.
\<close>

definition allocate :: "trading_context \<Rightarrow> bar list \<Rightarrow> rat \<Rightarrow> error + pool_row list \<times> rat" where
  "allocate ctx pool_df budget =
     (let num_stocks = length pool_df;
          rows0 = map (\<lambda>b. \<lparr>row = b, trade_price = bar_close b * trading_unit ctx,
                              trade_shares = 0\<rparr>) pool_df
      in if \<exists>r \<in> set rows0. trade_price r = 0 then Inl ZeroDivisionError
         else
           let rows1 = map (\<lambda>r. r\<lparr>trade_shares :=
                         rat_of_int \<lfloor>budget / of_nat num_stocks / trade_price r\<rfloor>\<rparr>) rows0;
               remaining_budget = budget - rows_cost rows1
           in Inr (redistribute remaining_budget (sort_key (\<lambda>r. - trade_price r) rows1)))"

text \<open>
  \<open>Position(...)\<close> for a row; \<open>latest_price\<close> and \<open>id\<close> are left to \<open>__post_init__\<close>,
  with the given piece of a fresh uuid.
\<close>

definition new_position :: "trading_context \<Rightarrow> string \<Rightarrow> pool_row \<Rightarrow> position" where
  "new_position ctx uuid_piece r =
     post_init uuid_piece
       \<lparr>timestamp = bar_timestamp (row r), code = bar_code (row r),
        company = bar_company (row r), price = bar_close (row r),
        shares = trade_shares r * trading_unit ctx, latest_price = 0, pos_id = []\<rparr>"

fun new_positions :: "trading_context \<Rightarrow> (nat \<Rightarrow> string) \<Rightarrow> nat \<Rightarrow> pool_row list \<Rightarrow> position list" where
  "new_positions ctx uuid k [] = []"
| "new_positions ctx uuid k (r # rs) = new_position ctx (uuid k) r # new_positions ctx uuid (Suc k) rs"

definition generate_positions ::
  "trading_context \<Rightarrow> (nat \<Rightarrow> string) \<Rightarrow> nat \<Rightarrow> bar list \<Rightarrow> rat \<Rightarrow> error + position list" where
  "generate_positions ctx uuid k pool_df budget =
     (if pool_df = [] \<or> budget \<le> 0 then Inr []
      else
        (case allocate ctx pool_df budget of
           Inl e \<Rightarrow> Inl e
         | Inr (rows, remaining_budget) \<Rightarrow>
             Inr (new_positions ctx uuid k (filter (\<lambda>r. 0 < trade_shares r) rows))))"

text \<open>The cost of a batch of positions: close price times shares, summed.\<close>

definition positions_cost :: "position list \<Rightarrow> rat" where
  "positions_cost ps = sum_list (map (\<lambda>p. price p * shares p) ps)"

section \<open>Backtester (backtesting/backtester.py)\<close>

subsection \<open>Price adjustment\<close>

text \<open>
  The inner \<open>while True\<close> of \<open>assign_factor_value_to_day\<close>: it reads \<open>fac_ts[i + 1]\<close>
  before every step, and reading past the end of the list raises \<open>IndexError\<close>. The
  index grows with every turn, so the loop ends.
\<close>

function advance :: "'t::linorder list \<Rightarrow> 't \<Rightarrow> nat \<Rightarrow> error + nat" where
  "advance fac_ts ts i =
     (if length fac_ts \<le> i + 1 then Inl IndexError
      else if ts < fac_ts ! (i + 1) then Inr i
      else advance fac_ts ts (i + 1))"
  by pat_completeness auto
termination
  by (relation "measure (\<lambda>(fac_ts, ts, i). length fac_ts - i)") auto

declare advance.simps [simp del]

fun assign_from :: "'t::linorder list \<Rightarrow> rat list \<Rightarrow> nat \<Rightarrow> 't list \<Rightarrow> error + rat list" where
  "assign_from fac_ts fac_vals i [] = Inr []"
| "assign_from fac_ts fac_vals i (ts # rest) =
     (case advance fac_ts ts i of
        Inl e \<Rightarrow> Inl e
      | Inr j \<Rightarrow>
          if length fac_vals \<le> j then Inl IndexError
          else (case assign_from fac_ts fac_vals j rest of
                  Inl e \<Rightarrow> Inl e
                | Inr factors \<Rightarrow> Inr (fac_vals ! j # factors)))"

definition assign_factor_value_to_day ::
  "'t::linorder list \<Rightarrow> rat list \<Rightarrow> 't list \<Rightarrow> error + rat list" where
  "assign_factor_value_to_day fac_ts fac_vals timestamps =
     assign_from fac_ts fac_vals 0 timestamps"

text \<open>
  The step function the spec describes: the value of the last factor whose date is not
  after \<open>ts\<close>, if there is one.
\<close>

definition factor_in_force :: "('t::linorder \<times> rat) list \<Rightarrow> 't \<Rightarrow> rat option" where
  "factor_in_force adj ts =
     (case filter (\<lambda>f. fst f \<le> ts) adj of [] \<Rightarrow> None | fs \<Rightarrow> Some (snd (last fs)))"

text \<open>
  \<open>chg\<close> and \<open>pct_chg\<close> of a frame, from the closes of the frame and the closes shifted
  by one row. \<open>fillna(0)\<close> turns the first row's \<open>NaN\<close> and every \<open>0 / 0\<close> into 0; a
  non-zero change over a zero close stays infinite.
\<close>

definition pct_of :: "rat option \<Rightarrow> rat \<Rightarrow> xfloat" where
  "pct_of prev_close chg =
     (case prev_close of
        None \<Rightarrow> Finite 0
      | Some c \<Rightarrow>
          if c = 0 then (if chg = 0 then Finite 0 else Infinite)
          else Finite (100 * (chg / c)))"

definition round_xfloat :: "xfloat \<Rightarrow> xfloat" where
  "round_xfloat x = (case x of Finite r \<Rightarrow> Finite (round_val r) | Infinite \<Rightarrow> Infinite)"

fun with_changes :: "rat option \<Rightarrow> bar list \<Rightarrow> bar list" where
  "with_changes prev_close [] = []"
| "with_changes prev_close (b # bs) =
     (let chg = (case prev_close of None \<Rightarrow> 0 | Some c \<Rightarrow> bar_close b - c)
      in b\<lparr>bar_chg := chg, bar_pct_chg := pct_of prev_close chg\<rparr>
           # with_changes (Some (bar_close b)) bs)"

definition round_bar :: "bar \<Rightarrow> bar" where
  "round_bar b =
     b\<lparr>bar_open := round_val (bar_open b), bar_high := round_val (bar_high b),
       bar_low := round_val (bar_low b), bar_close := round_val (bar_close b),
       bar_chg := round_val (bar_chg b), bar_pct_chg := round_xfloat (bar_pct_chg b),
       bar_indicators := map (\<lambda>(n, v). (n, round_val v)) (bar_indicators b)\<rparr>"

definition scale_bar :: "bar \<Rightarrow> rat \<Rightarrow> bar" where
  "scale_bar b f =
     b\<lparr>bar_open := bar_open b * f, bar_close := bar_close b * f,
       bar_high := bar_high b * f, bar_low := bar_low b * f\<rparr>"

text \<open>\<open>_adjust_prices\<close>: \<open>adj_df\<close> is the list of (timestamp, hfq_factor) rows of one symbol.\<close>

definition adjust_prices :: "bar list \<Rightarrow> (string \<times> rat) list \<Rightarrow> error + bar list" where
  "adjust_prices bars_df adj_df =
     (case assign_factor_value_to_day (map fst adj_df) (map snd adj_df)
             (map bar_timestamp bars_df) of
        Inl e \<Rightarrow> Inl e
      | Inr factor_vals \<Rightarrow>
          Inr (map round_bar (with_changes None (map2 scale_bar bars_df factor_vals))))"

subsection \<open>Indicator pipeline\<close>

text \<open>
  The strategy's hooks, as functions: \<open>indicator ind df\<close> is the method named \<open>ind\<close>
  applied to its predecessor columns of \<open>df\<close>; \<open>should_buy r\<close> and \<open>should_close r\<close>
  are the predicates applied to the buy and close indicator columns of the row \<open>r\<close>.
  \<open>tradepy.backtesting.dag\<close> is not among the sources: the compute order it returns
  is an argument of the pipeline.
\<close>

record strategy =
  pre_process :: "bar list \<Rightarrow> bar list"
  post_process :: "bar list \<Rightarrow> bar list"
  indicator :: "string \<Rightarrow> bar list \<Rightarrow> rat list"
  should_buy :: "bar \<Rightarrow> bool"
  should_close :: "bar \<Rightarrow> bool"
  close_indicators :: "string list"

definition base_columns :: "string list" where
  "base_columns = [''timestamp'', ''company'', ''open'', ''high'', ''low'', ''close'',
                   ''chg'', ''pct_chg'']"

definition has_column :: "bar list \<Rightarrow> string \<Rightarrow> bool" where
  "has_column df ind =
     (ind \<in> set base_columns \<or>
      (case df of [] \<Rightarrow> False | r # _ \<Rightarrow> ind \<in> fst ` set (bar_indicators r)))"

definition set_column :: "bar list \<Rightarrow> string \<Rightarrow> rat list \<Rightarrow> error + bar list" where
  "set_column df ind vals =
     (if length vals \<noteq> length df then Inl ValueError
      else Inr (map2 (\<lambda>r v. r\<lparr>bar_indicators := AList.update ind v (bar_indicators r)\<rparr>)
                  df vals))"

fun compute_indicators ::
  "strategy \<Rightarrow> (string \<times> string list) list \<Rightarrow> bar list \<Rightarrow> error + bar list" where
  "compute_indicators strat [] df = Inr df"
| "compute_indicators strat ((ind, predecessors) # rest) df =
     (if has_column df ind then compute_indicators strat rest df
      else (case set_column df ind (indicator strat ind df) of
              Inl e \<Rightarrow> Inl e
            | Inr df' \<Rightarrow> compute_indicators strat rest df'))"

definition exceeds_limit :: "xfloat \<Rightarrow> bool" where
  "exceeds_limit x = (case x of Finite r \<Rightarrow> 21 < \<bar>r\<bar> | Infinite \<Rightarrow> True)"

text \<open>
  The factor table \<open>adjust_factors_df\<close> is a list of rows (code, (timestamp,
  hfq_factor)), or \<open>None\<close> when no table is configured. \<open>.loc[code]\<close> is the rows of the
  symbol and raises \<open>KeyError\<close> when there is none; the \<open>except KeyError\<close> returns an
  empty frame. \<open>_adjust_then_compute\<close> gets the rows of one symbol.
\<close>

definition adjust_then_compute ::
  "strategy \<Rightarrow> (string \<times> string \<times> rat) list option \<Rightarrow> (string \<times> string list) list
     \<Rightarrow> bar list \<Rightarrow> error + bar list" where
  "adjust_then_compute strat adjust_factors_df indicators bars_df0 =
     (case bars_df0 of
        [] \<Rightarrow> Inl IndexError
      | b0 # _ \<Rightarrow>
          let code = bar_code b0;
              bars_df = pre_process strat (sort_key bar_timestamp bars_df0)
          in if bars_df = [] then Inr []
             else
               (case adjust_factors_df of
                  None \<Rightarrow> map_sum id (post_process strat)
                            (compute_indicators strat indicators bars_df)
                | Some adf \<Rightarrow>
                    (case filter (\<lambda>f. fst f = code) adf of
                       [] \<Rightarrow> Inr []
                     | rows \<Rightarrow>
                         (case adjust_prices bars_df (sort_key fst (map snd rows)) of
                            Inl e \<Rightarrow> Inl e
                          | Inr adjusted \<Rightarrow>
                              if \<exists>r \<in> set adjusted. exceeds_limit (bar_pct_chg r)
                              then Inr []
                              else map_sum id (post_process strat)
                                     (compute_indicators strat indicators adjusted)))))"

text \<open>\<open>df.groupby(level=...)\<close>: the groups in the order of their keys, rows in frame order.\<close>

definition groupby :: "(bar \<Rightarrow> string) \<Rightarrow> bar list \<Rightarrow> (string \<times> bar list) list" where
  "groupby key df =
     map (\<lambda>k. (k, filter (\<lambda>r. key r = k) df)) (sort (remdups (map key df)))"

text \<open>\<open>pd.concat\<close> of a generator: the first frame that raises ends it.\<close>

fun concat_frames :: "(error + bar list) list \<Rightarrow> error + bar list" where
  "concat_frames [] = Inr []"
| "concat_frames (x # xs) =
     (case x of
        Inl e \<Rightarrow> Inl e
      | Inr df \<Rightarrow> (case concat_frames xs of Inl e \<Rightarrow> Inl e | Inr rest \<Rightarrow> Inr (df @ rest)))"

text \<open>
  The per-symbol part of \<open>get_indicators_df\<close>, on the groups of the frame, and the
  function itself. \<open>compute_order\<close> is what the resolver returns; concatenating no
  frame at all raises \<open>ValueError\<close>.
\<close>

definition process_groups ::
  "strategy \<Rightarrow> (string \<times> string \<times> rat) list option \<Rightarrow> (string \<times> string list) list
     \<Rightarrow> bar list list \<Rightarrow> error + bar list" where
  "process_groups strat adjust_factors_df ind_resolv groups =
     concat_frames (map (adjust_then_compute strat adjust_factors_df ind_resolv) groups)"

definition get_indicators_df ::
  "strategy \<Rightarrow> (string \<times> string \<times> rat) list option \<Rightarrow> (string \<times> string list) list
     \<Rightarrow> bar list \<Rightarrow> error + bar list" where
  "get_indicators_df strat adjust_factors_df compute_order df =
     (let ind_resolv = filter (\<lambda>(ind, predecessors). \<not> has_column df ind) compute_order
      in if ind_resolv = [] then Inr df
         else if df = [] then Inl ValueError
         else process_groups strat adjust_factors_df ind_resolv (map snd (groupby bar_code df)))"

text \<open>
  The data-integrity faults of a symbol's rows \<open>g\<close> against a factor table: the table
  has no row for the symbol, or the adjusted frame has a \<open>pct_chg\<close> beyond 21.
\<close>

definition factor_fault :: "strategy \<Rightarrow> (string \<times> string \<times> rat) list \<Rightarrow> bar list \<Rightarrow> bool" where
  "factor_fault strat adf g =
     (g \<noteq> [] \<and>
      (let rows = filter (\<lambda>f. fst f = bar_code (hd g)) adf
       in rows = [] \<or>
          (case adjust_prices (pre_process strat (sort_key bar_timestamp g))
                  (sort_key fst (map snd rows)) of
             Inl e \<Rightarrow> False
           | Inr adjusted \<Rightarrow> \<exists>r \<in> set adjusted. exceeds_limit (bar_pct_chg r))))"

section \<open>Trade book (backtesting/account.py)\<close>

text \<open>
  \<open>tradepy.types.TradeActions\<close> is not among the sources; the four tags are the ones
  \<open>TradeBook\<close> writes.
\<close>

datatype trade_action = OPEN | CLOSE | STOP_LOSS | TAKE_PROFIT

record trade_log =
  log_timestamp :: string
  log_tag :: trade_action
  log_pos_id :: string
  log_code :: string
  log_shares :: rat
  log_price :: rat
  log_total_value :: rat
  log_chg :: "rat option"
  log_pct_chg :: "rat option"
  log_total_return :: "rat option"

record capitals_log =
  cap_timestamp :: string
  positions_value :: rat
  free_cash_amount :: rat

record trade_book =
  trade_logs :: "trade_log list"
  capital_logs :: "capitals_log list"

definition new_trade_book :: trade_book where
  "new_trade_book = \<lparr>trade_logs = [], capital_logs = []\<rparr>"

text \<open>
  \<open>TradeBook.__sell\<close>: the changes are computed first (the percentage raises on a zero
  entry price), then \<open>assert pos.latest_price\<close>.
\<close>

definition trade_book_sell ::
  "string \<Rightarrow> position \<Rightarrow> trade_action \<Rightarrow> trade_book \<Rightarrow> error + trade_book" where
  "trade_book_sell ts pos action tb =
     (case pct_chg_at pos (latest_price pos) of
        Inl e \<Rightarrow> Inl e
      | Inr pct_chg \<Rightarrow>
          if latest_price pos = 0 then Inl AssertionError
          else Inr (tb\<lparr>trade_logs := trade_logs tb @
                 [\<lparr>log_timestamp = ts, log_tag = action, log_pos_id = pos_id pos,
                   log_code = code pos, log_shares = shares pos,
                   log_price = latest_price pos,
                   log_total_value = latest_price pos * shares pos,
                   log_chg = Some (chg_at pos (latest_price pos)),
                   log_pct_chg = Some pct_chg,
                   log_total_return =
                     Some (price pos * pct_chg * (1 / 100) * shares pos)\<rparr>]\<rparr>))"

definition trade_book_buy :: "string \<Rightarrow> position \<Rightarrow> trade_book \<Rightarrow> trade_book" where
  "trade_book_buy ts pos tb =
     tb\<lparr>trade_logs := trade_logs tb @
        [\<lparr>log_timestamp = ts, log_tag = OPEN, log_pos_id = pos_id pos,
          log_code = code pos, log_shares = shares pos, log_price = price pos,
          log_total_value = price pos * shares pos,
          log_chg = None, log_pct_chg = None, log_total_return = None\<rparr>]\<rparr>"

definition log_capitals :: "string \<Rightarrow> rat \<Rightarrow> rat \<Rightarrow> trade_book \<Rightarrow> trade_book" where
  "log_capitals ts cash positions_val tb =
     tb\<lparr>capital_logs := capital_logs tb @
        [\<lparr>cap_timestamp = ts, positions_value = positions_val, free_cash_amount = cash\<rparr>]\<rparr>"

section \<open>The trading loop (Backtester.trade)\<close>

definition get_buy_signals :: "account \<Rightarrow> strategy \<Rightarrow> bar list \<Rightarrow> (string \<times> string) list" where
  "get_buy_signals acct strat df =
     map bar_index
       (filter (\<lambda>r. bar_code r \<notin> position_codes (holdings acct) \<and> should_buy strat r) df)"

definition get_close_signals :: "account \<Rightarrow> strategy \<Rightarrow> bar list \<Rightarrow> (string \<times> string) list" where
  "get_close_signals acct strat df =
     (if close_indicators strat = [] then []
      else if holdings acct = [] then []
      else map bar_index
             (filter (\<lambda>r. bar_code r \<in> position_codes (holdings acct) \<and> should_close strat r)
                df))"

text \<open>\<open>sub_df.loc[(timestamp, code), "close"]\<close>: \<open>KeyError\<close> when the day has no such row.\<close>

definition row_at :: "bar list \<Rightarrow> string \<times> string \<Rightarrow> bar option" where
  "row_at sub_df ix = find (\<lambda>r. bar_index r = ix) sub_df"

definition price_lookup :: "string \<Rightarrow> bar list \<Rightarrow> string \<Rightarrow> error + rat" where
  "price_lookup ts sub_df c =
     (case row_at sub_df (ts, c) of None \<Rightarrow> Inl KeyError | Some r \<Rightarrow> Inr (bar_close r))"

text \<open>
  The \<open>if\<close>/\<open>elif\<close> chain on one held position; \<open>:=\<close> binds the price and the branch
  is taken when it is truthy (neither \<open>None\<close> nor 0).
\<close>

definition truthy :: "rat option \<Rightarrow> rat option" where
  "truthy v = (case v of None \<Rightarrow> None | Some x \<Rightarrow> if x = 0 then None else Some x)"

definition exit_decision ::
  "trading_context \<Rightarrow> bar \<Rightarrow> position \<Rightarrow> bool \<Rightarrow> error + (rat \<times> trade_action) option" where
  "exit_decision ctx tick pos in_close_indices =
     (case should_take_profit ctx tick pos of
        Inl e \<Rightarrow> Inl e
      | Inr tp \<Rightarrow>
          (case truthy tp of
             Some take_profit_price \<Rightarrow> Inr (Some (take_profit_price, TAKE_PROFIT))
           | None \<Rightarrow>
               (case should_stop_loss ctx tick pos of
                  Inl e \<Rightarrow> Inl e
                | Inr sl \<Rightarrow>
                    (case truthy sl of
                       Some stop_loss_price \<Rightarrow> Inr (Some (stop_loss_price, STOP_LOSS))
                     | None \<Rightarrow>
                         if in_close_indices then Inr (Some (bar_close tick, CLOSE))
                         else Inr None))))"

text \<open>
  The loop over the holdings: a position whose row is missing is skipped; a position
  that exits is closed in place (the holdings see the new \<open>latest_price\<close>), logged and
  collected in \<open>sell_positions\<close>.
\<close>

fun resolve_exits ::
  "trading_context \<Rightarrow> string \<Rightarrow> bar list \<Rightarrow> (string \<times> string) list \<Rightarrow> holdings \<Rightarrow> trade_book
     \<Rightarrow> error + holdings \<times> position list \<times> trade_book" where
  "resolve_exits ctx ts sub_df close_indices [] tb = Inr ([], [], tb)"
| "resolve_exits ctx ts sub_df close_indices ((c, pos) # h) tb =
     (case row_at sub_df (ts, c) of
        None \<Rightarrow>
          (case resolve_exits ctx ts sub_df close_indices h tb of
             Inl e \<Rightarrow> Inl e
           | Inr (h', sells, tb') \<Rightarrow> Inr ((c, pos) # h', sells, tb'))
      | Some tick \<Rightarrow>
          (case exit_decision ctx tick pos ((ts, c) \<in> set close_indices) of
             Inl e \<Rightarrow> Inl e
           | Inr None \<Rightarrow>
               (case resolve_exits ctx ts sub_df close_indices h tb of
                  Inl e \<Rightarrow> Inl e
                | Inr (h', sells, tb') \<Rightarrow> Inr ((c, pos) # h', sells, tb'))
           | Inr (Some (x, action)) \<Rightarrow>
               (case trade_book_sell ts (close pos x) action tb of
                  Inl e \<Rightarrow> Inl e
                | Inr tb1 \<Rightarrow>
                    (case resolve_exits ctx ts sub_df close_indices h tb1 of
                       Inl e \<Rightarrow> Inl e
                     | Inr (h', sells, tb') \<Rightarrow>
                         Inr ((c, close pos x) # h', close pos x # sells, tb')))))"

record sim_state =
  sim_account :: account
  sim_book :: trade_book

text \<open>
  One turn of the loop over the days. \<open>uuid k\<close> is the piece of the \<open>k\<close>-th uuid drawn
  on the day and \<open>draw k\<close> the \<open>k\<close>-th number of the generator on the day.
\<close>

definition buy_step ::
  "trading_context \<Rightarrow> (nat \<Rightarrow> string) \<Rightarrow> (nat \<Rightarrow> nat) \<Rightarrow> string \<Rightarrow> bar list
     \<Rightarrow> (string \<times> string) list \<Rightarrow> sim_state \<Rightarrow> error + sim_state" where
  "buy_step ctx uuid draw ts sub_df buy_indices st =
     (if buy_indices = [] then Inr st
      else
        (case get_pool_and_budget ctx (sim_account st) draw 0 sub_df buy_indices
                (cash_amount (sim_account st)) of
           Inl e \<Rightarrow> Inl e
         | Inr (pool_df, budget) \<Rightarrow>
             (case generate_positions ctx uuid 0 pool_df budget of
                Inl e \<Rightarrow> Inl e
              | Inr buy_positions \<Rightarrow>
                  Inr \<lparr>sim_account = account_buy (sim_account st) buy_positions,
                       sim_book = fold (trade_book_buy ts) buy_positions (sim_book st)\<rparr>)))"

definition trade_day ::
  "trading_context \<Rightarrow> strategy \<Rightarrow> (nat \<Rightarrow> string) \<Rightarrow> (nat \<Rightarrow> nat) \<Rightarrow> string \<times> bar list
     \<Rightarrow> sim_state \<Rightarrow> error + sim_state" where
  "trade_day ctx strat uuid draw day st =
     (case day of
        (ts, sub_df) \<Rightarrow>
          (case account_tick (sim_account st) (price_lookup ts sub_df) of
             Inl e \<Rightarrow> Inl e
           | Inr a1 \<Rightarrow>
               let close_indices = get_close_signals a1 strat sub_df
               in (case resolve_exits ctx ts sub_df close_indices (holdings a1) (sim_book st) of
                     Inl e \<Rightarrow> Inl e
                   | Inr (h2, sell_positions, tb2) \<Rightarrow>
                       let a2 = a1\<lparr>holdings := h2\<rparr>;
                           a3 = (if sell_positions \<noteq> [] then account_sell a2 sell_positions
                                 else a2);
                           buy_indices = get_buy_signals a3 strat sub_df
                       in (case buy_step ctx uuid draw ts sub_df buy_indices
                                  \<lparr>sim_account = a3, sim_book = tb2\<rparr> of
                             Inl e \<Rightarrow> Inl e
                           | Inr st4 \<Rightarrow>
                               if buy_indices \<noteq> [] \<or> close_indices \<noteq> []
                               then Inr (st4\<lparr>sim_book :=
                                      log_capitals ts (cash_amount (sim_account st4))
                                        (get_total_worth (holdings (sim_account st4)))
                                        (sim_book st4)\<rparr>)
                               else Inr st4))))"

text \<open>
  The loop: \<open>uuid d\<close> and \<open>draw d\<close> are the random values of the \<open>d\<close>-th day.
\<close>

fun trade_days ::
  "trading_context \<Rightarrow> strategy \<Rightarrow> (nat \<Rightarrow> nat \<Rightarrow> string) \<Rightarrow> (nat \<Rightarrow> nat \<Rightarrow> nat) \<Rightarrow> nat
     \<Rightarrow> (string \<times> bar list) list \<Rightarrow> sim_state \<Rightarrow> error + sim_state" where
  "trade_days ctx strat uuid draw d [] st = Inr st"
| "trade_days ctx strat uuid draw d (day # days) st =
     (case trade_day ctx strat (uuid d) (draw d) day st of
        Inl e \<Rightarrow> Inl e
      | Inr st' \<Rightarrow> trade_days ctx strat uuid draw (Suc d) days st')"

text \<open>
  \<open>Backtester.trade\<close>: a frame that is not indexed by \<open>[timestamp, code]\<close> is re-indexed
  and sorted by that index first; the book starts empty and the account is the one of
  the context.
\<close>

definition day_frames :: "bool \<Rightarrow> bar list \<Rightarrow> (string \<times> bar list) list" where
  "day_frames indexed df =
     groupby bar_timestamp (if indexed then df else sort_key bar_index df)"

definition trade ::
  "trading_context \<Rightarrow> strategy \<Rightarrow> (nat \<Rightarrow> nat \<Rightarrow> string) \<Rightarrow> (nat \<Rightarrow> nat \<Rightarrow> nat) \<Rightarrow> bool
     \<Rightarrow> bar list \<Rightarrow> account \<Rightarrow> error + sim_state" where
  "trade ctx strat uuid draw indexed df acct =
     trade_days ctx strat uuid draw 0 (day_frames indexed df)
       \<lparr>sim_account = acct, sim_book = new_trade_book\<rparr>"

text \<open>The symbols a state holds and has logged trades for all lie in a set \<open>C\<close>.\<close>

definition codes_within :: "string set \<Rightarrow> sim_state \<Rightarrow> bool" where
  "codes_within C st =
     (code ` snd ` set (holdings (sim_account st)) \<subseteq> C \<and>
      log_code ` set (trade_logs (sim_book st)) \<subseteq> C)"

subsection \<open>Runs compared up to position ids\<close>

definition anon_pos :: "position \<Rightarrow> position" where
  "anon_pos p = p\<lparr>pos_id := []\<rparr>"

definition anon_holdings :: "holdings \<Rightarrow> holdings" where
  "anon_holdings h = map (\<lambda>(c, p). (c, anon_pos p)) h"

definition anon_account :: "account \<Rightarrow> account" where
  "anon_account a = a\<lparr>holdings := anon_holdings (holdings a)\<rparr>"

definition anon_log :: "trade_log \<Rightarrow> trade_log" where
  "anon_log l = l\<lparr>log_pos_id := []\<rparr>"

definition anon_book :: "trade_book \<Rightarrow> trade_book" where
  "anon_book tb = tb\<lparr>trade_logs := map anon_log (trade_logs tb)\<rparr>"

definition anon_state :: "sim_state \<Rightarrow> sim_state" where
  "anon_state st =
     \<lparr>sim_account = anon_account (sim_account st), sim_book = anon_book (sim_book st)\<rparr>"

text \<open>A day on which the buy predicate holds for no more rows than the limit allows.\<close>

definition within_limit :: "trading_context \<Rightarrow> strategy \<Rightarrow> string \<times> bar list \<Rightarrow> bool" where
  "within_limit ctx strat day =
     (distinct (map bar_index (snd day)) \<and>
      int (length (filter (should_buy strat) (snd day))) \<le> max_position_opens ctx)"

abbreviation ex_bar :: "string \<Rightarrow> rat \<Rightarrow> rat \<Rightarrow> rat \<Rightarrow> rat \<Rightarrow> bar" where
  "ex_bar c opn h l cl \<equiv>
     \<lparr>bar_timestamp = ''2023-01-04'', bar_code = c, bar_company = ''Co'',
      bar_open = opn, bar_high = h, bar_low = l, bar_close = cl, bar_chg = 0,
      bar_pct_chg = Finite 0, bar_indicators = []\<rparr>"

abbreviation ex_context :: "rat \<Rightarrow> rat \<Rightarrow> int \<Rightarrow> trading_context" where
  "ex_context sl tp n \<equiv>
     \<lparr>stop_loss = sl, take_profit = tp, max_position_opens = n,
      max_position_size = 1, trading_unit = 100\<rparr>"

subsection \<open>Example data\<close>

abbreviation ex_strategy :: "bool \<Rightarrow> strategy" where
  "ex_strategy buy \<equiv>
     \<lparr>pre_process = (\<lambda>df. df), post_process = (\<lambda>df. df),
      indicator = (\<lambda>ind df. map bar_close df),
      should_buy = (\<lambda>r. buy), should_close = (\<lambda>r. False), close_indicators = []\<rparr>"

abbreviation ex_factors :: "(string \<times> string \<times> rat) list" where
  "ex_factors \<equiv>
     [(''000002'', (''2023-01-01'', 1)), (''000002'', (''2024-01-01'', 1)),
      (''000003'', (''2023-01-01'', 1)), (''000003'', (''2024-01-01'', 1))]"

abbreviation ex_state :: "rat \<Rightarrow> holdings \<Rightarrow> sim_state" where
  "ex_state c h \<equiv>
     \<lparr>sim_account = \<lparr>buy_commission_rate = 0, sell_commission_rate = 0, cash_amount = c,
                      holdings = h\<rparr>,
      sim_book = \<lparr>trade_logs = [], capital_logs = []\<rparr>\<rparr>"

abbreviation ex_position :: "rat \<Rightarrow> rat \<Rightarrow> position" where
  "ex_position x n \<equiv>
     \<lparr>timestamp = ''2023-01-03'', code = ''000001'', company = ''PAB'',
      price = x, shares = n, latest_price = x, pos_id = ''PAB-4f2a''\<rparr>"

abbreviation ex_account :: "rat \<Rightarrow> rat \<Rightarrow> account" where
  "ex_account r c \<equiv>
     \<lparr>buy_commission_rate = r, sell_commission_rate = r, cash_amount = c, holdings = []\<rparr>"

section \<open>Evaluation of roundings\<close>

lemma floor_rat_numeral_div [simp]:
  "\<lfloor>numeral m / numeral n :: rat\<rfloor> = numeral m div numeral n"
  using floor_divide_of_int_eq [of "numeral m" "numeral n", where ?'a = rat] by simp

lemma floor_rat_neg_numeral_div [simp]:
  "\<lfloor>- (numeral m / numeral n) :: rat\<rfloor> = - numeral m div numeral n"
  using floor_divide_of_int_eq [of "- numeral m" "numeral n", where ?'a = rat] by simp

lemma floor_rat_one_div [simp]: "\<lfloor>1 / numeral n :: rat\<rfloor> = 1 div numeral n"
  using floor_divide_of_int_eq [of 1 "numeral n", where ?'a = rat] by simp

lemmas round_defs = round_val_def round_half_even_def Let_def

lemma round_val_0 [simp]: "round_val 0 = 0"
  by (simp add: round_defs)

section \<open>The ledger\<close>

lemma worth_update_new:
  "k \<notin> fst ` set h \<Longrightarrow>
   get_total_worth (AList.update k p h) = get_total_worth h + latest_price p * shares p"
  by (induction h) (auto simp: get_total_worth_def)

lemma worth_delete:
  "distinct (map fst h) \<Longrightarrow> map_of h k = Some p \<Longrightarrow>
   get_total_worth (AList.delete k h) = get_total_worth h - latest_price p * shares p"
proof (induction h)
  case Nil
  then show ?case by simp
next
  case (Cons e h)
  obtain c q where e: "e = (c, q)" by (cases e)
  show ?case
  proof (cases "c = k")
    case True
    with Cons.prems e have "k \<notin> fst ` set h" and "q = p" by auto
    then have "AList.delete k h = h"
      by (auto simp: AList.delete_eq filter_id_conv image_iff)
    with True e \<open>q = p\<close> show ?thesis by (simp add: get_total_worth_def)
  next
    case False
    with Cons e show ?thesis by (simp add: get_total_worth_def)
  qed
qed

lemma worth_fold_update:
  "distinct (map code ps) \<Longrightarrow> \<forall>p \<in> set ps. code p \<notin> fst ` set h \<Longrightarrow>
   get_total_worth (fold (\<lambda>p. AList.update (code p) p) ps h) =
     get_total_worth h + sum_list (map (\<lambda>p. latest_price p * shares p) ps)"
proof (induction ps arbitrary: h)
  case Nil
  then show ?case by simp
next
  case (Cons p ps)
  have fresh: "\<forall>q \<in> set ps. code q \<notin> fst ` set (AList.update (code p) p h)"
  proof
    fix q assume q: "q \<in> set ps"
    then have "code q \<in> code ` set ps" by (rule imageI)
    with Cons.prems(1) have "code q \<noteq> code p" by auto
    moreover from q Cons.prems(2) have "code q \<notin> fst ` set h" by simp
    ultimately show "code q \<notin> fst ` set (AList.update (code p) p h)"
      by (simp add: dom_update)
  qed
  have "distinct (map code ps)" using Cons.prems by simp
  from Cons.IH [OF this fresh] Cons.prems show ?case
    by (simp add: worth_update_new)
qed

lemma worth_fold_delete:
  "distinct (map fst h) \<Longrightarrow> distinct (map code ps) \<Longrightarrow>
   \<forall>p \<in> set ps. map_of h (code p) = Some p \<Longrightarrow>
   get_total_worth (fold (\<lambda>p. AList.delete (code p)) ps h) =
     get_total_worth h - sum_list (map (\<lambda>p. latest_price p * shares p) ps)"
proof (induction ps arbitrary: h)
  case Nil
  then show ?case by simp
next
  case (Cons p ps)
  have d: "distinct (map fst (AList.delete (code p) h))"
    using Cons.prems(1) by (rule distinct_delete)
  have held: "\<forall>q \<in> set ps. map_of (AList.delete (code p) h) (code q) = Some q"
  proof
    fix q assume q: "q \<in> set ps"
    then have "code q \<in> code ` set ps" by (rule imageI)
    with Cons.prems(2) have "code q \<noteq> code p" by auto
    moreover from q Cons.prems(3) have "map_of h (code q) = Some q" by simp
    ultimately show "map_of (AList.delete (code p) h) (code q) = Some q" by simp
  qed
  have "distinct (map code ps)" using Cons.prems by simp
  from Cons.IH [OF d this held] Cons.prems show ?case
    by (simp add: worth_delete)
qed

lemma distinct_fold_update:
  "distinct (map fst h) \<Longrightarrow> distinct (map fst (fold (\<lambda>p. AList.update (code p) p) ps h))"
  by (induction ps arbitrary: h) (simp_all add: distinct_update)

lemma distinct_fold_delete:
  "distinct (map fst h) \<Longrightarrow> distinct (map fst (fold (\<lambda>p. AList.delete (code p)) ps h))"
  by (induction ps arbitrary: h) (simp_all add: distinct_delete)

lemma distinct_apply_op:
  "distinct (map fst (holdings a)) \<Longrightarrow> distinct (map fst (holdings (apply_op a x)))"
  by (cases x)
     (simp_all add: account_buy_def account_sell_def holdings_buy_def holdings_sell_def
        distinct_fold_update distinct_fold_delete)

lemma value_apply_op:
  assumes "distinct (map fst (holdings a))" and "op_ok a x"
  shows "get_total_asset_value (apply_op a x) = get_total_asset_value a - charged a x"
proof (cases x)
  case (Buy ps)
  with assms(2) have d: "distinct (map code ps)"
    and f: "\<forall>p \<in> set ps. code p \<notin> fst ` set (holdings a)"
    and m: "\<forall>p \<in> set ps. latest_price p = price p"
    by (auto simp: position_codes_def)
  from m have "map (\<lambda>p. latest_price p * shares p) ps = map (\<lambda>p. price p * shares p) ps"
    by simp
  with worth_fold_update [OF d f] Buy show ?thesis
    by (simp add: get_total_asset_value_def account_buy_def holdings_buy_def
        add_buy_commissions_def)
next
  case (Sell ps)
  with assms(2) have d: "distinct (map code ps)"
    and f: "\<forall>p \<in> set ps. map_of (holdings a) (code p) = Some p"
    by auto
  from worth_fold_delete [OF assms(1) d f] Sell show ?thesis
    by (simp add: get_total_asset_value_def account_sell_def holdings_sell_def
        take_sell_commissions_def)
qed

lemma rates_apply_op:
  "buy_commission_rate (apply_op a x) = buy_commission_rate a \<and>
   sell_commission_rate (apply_op a x) = sell_commission_rate a"
  by (cases x) (simp_all add: account_buy_def account_sell_def split: prod.splits)

lemma value_apply_ops:
  "distinct (map fst (holdings a)) \<Longrightarrow> ops_ok a xs \<Longrightarrow>
   get_total_asset_value (apply_ops a xs) = get_total_asset_value a - total_charged a xs"
proof (induction xs arbitrary: a)
  case Nil
  then show ?case by simp
next
  case (Cons x xs)
  from Cons.prems have ok: "op_ok a x" and rest: "ops_ok (apply_op a x) xs" by simp_all
  from Cons.IH [OF distinct_apply_op [OF Cons.prems(1)] rest]
    value_apply_op [OF Cons.prems(1) ok]
  show ?case by simp
qed

lemma charged_free:
  "buy_commission_rate a = 0 \<Longrightarrow> sell_commission_rate a = 0 \<Longrightarrow>
   whole_cents (op_total x) \<Longrightarrow> charged a x = 0"
  by (cases x) (simp_all add: whole_cents_def add_buy_commissions_def take_sell_commissions_def)

lemma total_charged_free:
  "buy_commission_rate a = 0 \<Longrightarrow> sell_commission_rate a = 0 \<Longrightarrow>
   \<forall>x \<in> set xs. whole_cents (op_total x) \<Longrightarrow> total_charged a xs = 0"
  by (induction xs arbitrary: a) (simp_all add: charged_free rates_apply_op)

text \<open>
  C1 (as stated, refuted). With both commission rates 0, buying one share at 10.0625
  debits \<open>round_val 10.0625 = 10.06\<close> and adds a position worth 10.0625: the total asset
  value moves by 0.0025, where the claim charges \<open>round_val (10.0625 * 0 / 100) = 0\<close>
  and leaves the value unchanged.
\<close>

theorem value_conservation_counterexample:
  "get_total_asset_value (account_buy (ex_account 0 100) [ex_position (161 / 16) 1]) =
     get_total_asset_value (ex_account 0 100) + 1 / 400 \<and>
   round_val (op_total (Buy [ex_position (161 / 16) 1]) *
     (buy_commission_rate (ex_account 0 100) * (1 / 100))) = 0"
  by (simp add: get_total_asset_value_def get_total_worth_def account_buy_def
      holdings_buy_def add_buy_commissions_def round_defs)

text \<open>
  C1 (amended). For an account whose holdings have one entry for each symbol and a
  sequence of buys of fresh positions and sells of held positions, the total asset
  value after the sequence is the value before it less what each operation charged:
  on a buy \<open>round_val (cost_total * (1 + buy_rate / 100)) - cost_total\<close>, on a sell
  \<open>proceeds_total - round_val (proceeds_total * (1 - sell_rate / 100))\<close>; the figure
  rounded to 2 decimals is the commission-inclusive total, not the commission alone.
  With both rates 0 and every operation's raw total a whole number of cents the value
  is unchanged by the sequence.
\<close>

theorem value_conservation:
  assumes "distinct (map fst (holdings a))" and "ops_ok a xs"
  shows "get_total_asset_value (apply_ops a xs) =
           get_total_asset_value a - total_charged a xs \<and>
         (buy_commission_rate a = 0 \<and> sell_commission_rate a = 0 \<and>
          (\<forall>x \<in> set xs. whole_cents (op_total x)) \<longrightarrow>
          get_total_asset_value (apply_ops a xs) = get_total_asset_value a)"
  using value_apply_ops [OF assms] total_charged_free [of a xs] by simp

theorem value_conservation_witness:
  "distinct (map fst (holdings (ex_account 0 5000))) \<and>
   ops_ok (ex_account 0 5000) [Buy [ex_position 10 100], Sell [ex_position 10 100]] \<and>
   whole_cents (op_total (Buy [ex_position 10 100])) \<and>
   whole_cents (op_total (Sell [ex_position 10 100])) \<and>
   get_total_asset_value
     (apply_ops (ex_account 0 5000) [Buy [ex_position 10 100], Sell [ex_position 10 100]]) =
   get_total_asset_value (ex_account 0 5000)"
proof -
  let ?a = "ex_account 0 5000"
  let ?xs = "[Buy [ex_position 10 100], Sell [ex_position 10 100]]"
  have h1: "distinct (map fst (holdings ?a))" by simp
  have h2: "ops_ok ?a ?xs"
    by (simp add: account_buy_def holdings_buy_def position_codes_def)
  have h3: "\<forall>x \<in> set ?xs. whole_cents (op_total x)"
    by (simp add: whole_cents_def round_defs)
  from value_conservation [OF h1 h2] h3
  have "get_total_asset_value (apply_ops ?a ?xs) = get_total_asset_value ?a" by simp
  with h1 h2 h3 show ?thesis by simp
qed

lemma codes_fold_update:
  "fst ` set (fold (\<lambda>p. AList.update (code p) p) ps h) = fst ` set h \<union> code ` set ps"
  by (induction ps arbitrary: h) (auto simp: dom_update)

text \<open>
  C10. \<open>Account.buy\<close> has no cash-sufficiency check and no error result: for every
  account and every batch it debits the rounded commission-inclusive total cost and
  the symbols of the batch are held afterwards; buying 100 shares at 10.00 with a 1%
  buy commission on 50.00 of cash leaves a cash balance of -960.00.
\<close>

theorem account_buy_unchecked:
  "cash_amount (account_buy a ps) =
     cash_amount a - add_buy_commissions a (sum_list (map (\<lambda>p. price p * shares p) ps)) \<and>
   position_codes (holdings (account_buy a ps)) =
     position_codes (holdings a) \<union> code ` set ps \<and>
   cash_amount (account_buy (ex_account 1 50) [ex_position 10 100]) = - 960 \<and>
   holdings (account_buy (ex_account 1 50) [ex_position 10 100]) =
     [(''000001'', ex_position 10 100)]"
proof -
  have "cash_amount (account_buy a ps) =
     cash_amount a - add_buy_commissions a (sum_list (map (\<lambda>p. price p * shares p) ps))"
    by (simp add: account_buy_def holdings_buy_def add_buy_commissions_def)
  moreover have "position_codes (holdings (account_buy a ps)) =
     position_codes (holdings a) \<union> code ` set ps"
    by (simp add: account_buy_def holdings_buy_def position_codes_def codes_fold_update)
  moreover have "cash_amount (account_buy (ex_account 1 50) [ex_position 10 100]) = - 960"
    by (simp add: account_buy_def holdings_buy_def add_buy_commissions_def round_defs)
  moreover have "holdings (account_buy (ex_account 1 50) [ex_position 10 100]) =
     [(''000001'', ex_position 10 100)]"
    by (simp add: account_buy_def holdings_buy_def)
  ultimately show ?thesis by blast
qed

section \<open>Exit prices\<close>

text \<open>
  C2. When the percentage change of the bar's open against the entry price meets or
  exceeds the take-profit threshold, \<open>should_take_profit\<close> gives exactly the open;
  otherwise, when the percentage change of the bar's high meets or exceeds it, exactly
  \<open>entry_price * (1 + take_profit / 100)\<close> rounded to 2 decimals, whatever the high is.
  The loop closes the position at that price, tagged take-profit, the price being
  truthy (not 0). Entry 10.00 with a 10% threshold: a bar with open 10.0 and high 11.5
  exits at 11.00, a bar with open 11.2 exits at 11.20.
\<close>

theorem take_profit_exit_price:
  assumes "calc_pct_chg (price pos) (bar_open tick) = Inr open_pct_chg"
    and "calc_pct_chg (price pos) (bar_high tick) = Inr high_pct_chg"
  shows "(take_profit ctx \<le> open_pct_chg \<longrightarrow>
            should_take_profit ctx tick pos = Inr (Some (bar_open tick)) \<and>
            (bar_open tick \<noteq> 0 \<longrightarrow>
               exit_decision ctx tick pos in_close =
                 Inr (Some (bar_open tick, TAKE_PROFIT)))) \<and>
         (open_pct_chg < take_profit ctx \<and> take_profit ctx \<le> high_pct_chg \<longrightarrow>
            should_take_profit ctx tick pos =
              Inr (Some (round_val (price pos * (1 + take_profit ctx * (1 / 100))))) \<and>
            (round_val (price pos * (1 + take_profit ctx * (1 / 100))) \<noteq> 0 \<longrightarrow>
               exit_decision ctx tick pos in_close =
                 Inr (Some (round_val (price pos * (1 + take_profit ctx * (1 / 100))),
                            TAKE_PROFIT)))) \<and>
         exit_decision (ex_context 8 10 5) (ex_bar ''000001'' 10 (23 / 2) (49 / 5) 11)
            (ex_position 10 100) False = Inr (Some (11, TAKE_PROFIT)) \<and>
         exit_decision (ex_context 8 10 5) (ex_bar ''000001'' (56 / 5) 12 11 (23 / 2))
            (ex_position 10 100) False = Inr (Some (56 / 5, TAKE_PROFIT))"
proof -
  have a: "take_profit ctx \<le> open_pct_chg \<longrightarrow>
            should_take_profit ctx tick pos = Inr (Some (bar_open tick))"
    using assms by (simp add: should_take_profit_def)
  have b: "open_pct_chg < take_profit ctx \<and> take_profit ctx \<le> high_pct_chg \<longrightarrow>
            should_take_profit ctx tick pos =
              Inr (Some (round_val (price pos * (1 + take_profit ctx * (1 / 100)))))"
    using assms by (simp add: should_take_profit_def price_at_pct_change_def)
  have e: "should_take_profit ctx tick pos = Inr (Some x) \<Longrightarrow> x \<noteq> 0 \<Longrightarrow>
      exit_decision ctx tick pos in_close = Inr (Some (x, TAKE_PROFIT))" for x
    by (simp add: exit_decision_def truthy_def)
  have c: "exit_decision (ex_context 8 10 5) (ex_bar ''000001'' 10 (23 / 2) (49 / 5) 11)
            (ex_position 10 100) False = Inr (Some (11, TAKE_PROFIT))"
    by (simp add: exit_decision_def truthy_def should_take_profit_def price_at_pct_change_def
        calc_pct_chg_def round_defs)
  have d: "exit_decision (ex_context 8 10 5) (ex_bar ''000001'' (56 / 5) 12 11 (23 / 2))
            (ex_position 10 100) False = Inr (Some (56 / 5, TAKE_PROFIT))"
    by (simp add: exit_decision_def truthy_def should_take_profit_def price_at_pct_change_def
        calc_pct_chg_def round_defs)
  from a b e c d show ?thesis by blast
qed

theorem take_profit_exit_price_witness:
  "calc_pct_chg 10 10 = Inr 0 \<and> calc_pct_chg 10 (23 / 2) = Inr 15 \<and>
   round_val (10 * (1 + 10 * (1 / 100))) = 11 \<and>
   should_take_profit (ex_context 8 10 5) (ex_bar ''000001'' 10 (23 / 2) (49 / 5) 11)
     (ex_position 10 100) = Inr (Some 11) \<and>
   exit_decision (ex_context 8 10 5) (ex_bar ''000001'' 10 (23 / 2) (49 / 5) 11)
     (ex_position 10 100) True = Inr (Some (11, TAKE_PROFIT)) \<and>
   calc_pct_chg 10 (56 / 5) = Inr 12 \<and> calc_pct_chg 10 12 = Inr 20 \<and>
   should_take_profit (ex_context 8 10 5) (ex_bar ''000001'' (56 / 5) 12 11 (23 / 2))
     (ex_position 10 100) = Inr (Some (56 / 5)) \<and>
   exit_decision (ex_context 8 10 5) (ex_bar ''000001'' (56 / 5) 12 11 (23 / 2))
     (ex_position 10 100) True = Inr (Some (56 / 5, TAKE_PROFIT))"
proof -
  have o1: "calc_pct_chg 10 10 = Inr 0" by (simp add: calc_pct_chg_def round_defs)
  have h1: "calc_pct_chg 10 (23 / 2) = Inr 15" by (simp add: calc_pct_chg_def round_defs)
  have o2: "calc_pct_chg 10 (56 / 5) = Inr 12" by (simp add: calc_pct_chg_def round_defs)
  have h2: "calc_pct_chg 10 12 = Inr 20" by (simp add: calc_pct_chg_def round_defs)
  have r: "round_val (10 * (1 + 10 * (1 / 100))) = 11" by (simp add: round_defs)
  from take_profit_exit_price
    [of "ex_position 10 100" "ex_bar ''000001'' 10 (23 / 2) (49 / 5) 11" 0 15
      "ex_context 8 10 5" True]
    o1 h1 r
  have t1: "should_take_profit (ex_context 8 10 5) (ex_bar ''000001'' 10 (23 / 2) (49 / 5) 11)
      (ex_position 10 100) = Inr (Some 11) \<and>
    exit_decision (ex_context 8 10 5) (ex_bar ''000001'' 10 (23 / 2) (49 / 5) 11)
      (ex_position 10 100) True = Inr (Some (11, TAKE_PROFIT))" by simp
  from take_profit_exit_price
    [of "ex_position 10 100" "ex_bar ''000001'' (56 / 5) 12 11 (23 / 2)" 12 20
      "ex_context 8 10 5" True]
    o2 h2
  have t2: "should_take_profit (ex_context 8 10 5) (ex_bar ''000001'' (56 / 5) 12 11 (23 / 2))
      (ex_position 10 100) = Inr (Some (56 / 5)) \<and>
    exit_decision (ex_context 8 10 5) (ex_bar ''000001'' (56 / 5) 12 11 (23 / 2))
      (ex_position 10 100) True = Inr (Some (56 / 5, TAKE_PROFIT))" by simp
  from o1 h1 o2 h2 r t1 t2 show ?thesis by simp
qed

section \<open>Sizing\<close>

lemma floor_step:
  fixes rem p :: rat
  assumes "0 \<le> rem" and "0 < p"
  shows "0 \<le> rat_of_int \<lfloor>rem / p\<rfloor>"
    and "0 \<le> rem - rat_of_int \<lfloor>rem / p\<rfloor> * p"
    and "rem - rat_of_int \<lfloor>rem / p\<rfloor> * p < p"
proof -
  from assms have "0 \<le> rem / p" by simp
  then show "0 \<le> rat_of_int \<lfloor>rem / p\<rfloor>" by simp
  from floor_divide_lower [OF assms(2), of rem]
  show "0 \<le> rem - rat_of_int \<lfloor>rem / p\<rfloor> * p" by simp
  from floor_divide_upper [OF assms(2), of rem]
  show "rem - rat_of_int \<lfloor>rem / p\<rfloor> * p < p" by (simp add: algebra_simps)
qed

lemma redistribute_spec:
  assumes "\<forall>r \<in> set rs. 0 < trade_price r" and "0 \<le> rem"
    and "redistribute rem rs = (rs', rem')"
  shows "0 \<le> rem' \<and> rem' \<le> rem \<and> rows_cost rs' + rem' = rows_cost rs + rem \<and>
         (\<forall>r \<in> set rs. rem' < trade_price r) \<and>
         map row rs' = map row rs \<and> map trade_price rs' = map trade_price rs \<and>
         ((\<forall>r \<in> set rs. 0 \<le> trade_shares r) \<longrightarrow> (\<forall>r \<in> set rs'. 0 \<le> trade_shares r))"
  using assms
proof (induction rs arbitrary: rem rs' rem')
  case Nil
  then show ?case by (simp add: rows_cost_def)
next
  case (Cons r rs)
  let ?q = "rat_of_int \<lfloor>rem / trade_price r\<rfloor>"
  let ?rem1 = "rem - ?q * trade_price r"
  from Cons.prems have p: "0 < trade_price r" and ps: "\<forall>r \<in> set rs. 0 < trade_price r"
    by simp_all
  note fs = floor_step [OF Cons.prems(2) p]
  obtain ts m where rec: "redistribute ?rem1 rs = (ts, m)" by (cases "redistribute ?rem1 rs")
  from Cons.IH [OF ps fs(2) rec]
  have ih: "0 \<le> m" "m \<le> ?rem1" "rows_cost ts + m = rows_cost rs + ?rem1"
    "\<forall>r \<in> set rs. m < trade_price r" "map row ts = map row rs"
    "map trade_price ts = map trade_price rs"
    "(\<forall>r \<in> set rs. 0 \<le> trade_shares r) \<longrightarrow> (\<forall>r \<in> set ts. 0 \<le> trade_shares r)"
    by simp_all
  have res: "rs' = r\<lparr>trade_shares := trade_shares r + ?q\<rparr> # ts \<and> rem' = m"
  proof (cases "?q = 0")
    case True
    then have "?rem1 = rem" by simp
    with True Cons.prems(3) rec show ?thesis by (simp add: Let_def)
  next
    case False
    with Cons.prems(3) rec show ?thesis by (simp add: Let_def)
  qed
  have le: "?rem1 \<le> rem" using fs(1) p by (simp add: mult_nonneg_nonneg)
  have "rows_cost rs' + rem' = rows_cost (r # rs) + rem"
    using res ih(3) by (simp add: rows_cost_def algebra_simps)
  moreover have "\<forall>x \<in> set (r # rs). rem' < trade_price x"
    using res ih(2,4) fs(3) by auto
  moreover have "0 \<le> rem'" "rem' \<le> rem" using res ih(1,2) le by auto
  moreover have "map row rs' = map row (r # rs)" "map trade_price rs' = map trade_price (r # rs)"
    using res ih(5,6) by simp_all
  moreover have "(\<forall>x \<in> set (r # rs). 0 \<le> trade_shares x) \<longrightarrow> (\<forall>x \<in> set rs'. 0 \<le> trade_shares x)"
    using res ih(7) fs(1) by auto
  ultimately show ?case by blast
qed

lemma sum_list_insort_key:
  fixes g :: "'a \<Rightarrow> rat"
  shows "sum_list (map g (insort_key f x xs)) = g x + sum_list (map g xs)"
  by (induction xs) simp_all

lemma sum_list_sort_key:
  fixes g :: "'a \<Rightarrow> rat"
  shows "sum_list (map g (sort_key f xs)) = sum_list (map g xs)"
  by (induction xs) (simp_all add: sum_list_insort_key)

lemma first_lots_cost:
  fixes share :: rat
  assumes "0 \<le> share" and "\<forall>r \<in> set rs. 0 < trade_price r"
  shows "rows_cost (map (\<lambda>r. r\<lparr>trade_shares := rat_of_int \<lfloor>share / trade_price r\<rfloor>\<rparr>) rs)
           \<le> of_nat (length rs) * share"
  using assms(2)
proof (induction rs)
  case Nil
  then show ?case by (simp add: rows_cost_def)
next
  case (Cons r rs)
  then have p: "0 < trade_price r" by simp
  from floor_step(2) [OF assms(1) p]
  have "trade_price r * rat_of_int \<lfloor>share / trade_price r\<rfloor> \<le> share"
    by (simp add: mult.commute)
  with Cons show ?case by (simp add: rows_cost_def algebra_simps)
qed

lemma new_positions_cost:
  "positions_cost (new_positions ctx uuid k rs) =
     sum_list (map (\<lambda>r. bar_close (row r) * (trade_shares r * trading_unit ctx)) rs)"
  by (induction rs arbitrary: k)
     (simp_all add: positions_cost_def new_position_def post_init_def Let_def)

lemma new_positions_shares:
  "0 < trading_unit ctx \<Longrightarrow> \<forall>r \<in> set rs. 0 < trade_shares r \<Longrightarrow>
   \<forall>p \<in> set (new_positions ctx uuid k rs). 0 < shares p"
  by (induction rs arbitrary: k) (simp_all add: new_position_def post_init_def Let_def)

lemma new_positions_codes:
  "map code (new_positions ctx uuid k rs) = map (\<lambda>r. bar_code (row r)) rs"
  by (induction rs arbitrary: k) (simp_all add: new_position_def post_init_def Let_def)

lemma rows_cost_filter:
  "\<forall>r \<in> set rs. 0 \<le> trade_shares r \<Longrightarrow>
   rows_cost (filter (\<lambda>r. 0 < trade_shares r) rs) = rows_cost rs"
  by (induction rs) (auto simp: rows_cost_def)

lemma allocate_spec:
  assumes b: "0 < budget" and u: "0 < trading_unit ctx"
    and c: "\<forall>b \<in> set pool_df. 0 < bar_close b" and ne: "pool_df \<noteq> []"
  shows "\<exists>rows rem. allocate ctx pool_df budget = Inr (rows, rem) \<and>
           0 \<le> rem \<and> rows_cost rows + rem = budget \<and>
           (\<forall>b \<in> set pool_df. rem < bar_close b * trading_unit ctx) \<and>
           (\<forall>r \<in> set rows. 0 \<le> trade_shares r) \<and>
           (\<forall>r \<in> set rows. trade_price r = bar_close (row r) * trading_unit ctx)"
proof -
  define share where "share = budget / of_nat (length pool_df)"
  define rows0 where "rows0 = map (\<lambda>b. \<lparr>row = b, trade_price = bar_close b * trading_unit ctx,
                              trade_shares = 0\<rparr>) pool_df"
  define rows1 where
    "rows1 = map (\<lambda>r. r\<lparr>trade_shares := rat_of_int \<lfloor>share / trade_price r\<rfloor>\<rparr>) rows0"
  define sorted_rows where "sorted_rows = sort_key (\<lambda>r. - trade_price r) rows1"
  define rem0 where "rem0 = budget - rows_cost rows1"
  have share: "0 \<le> share" using b by (simp add: share_def)
  have pos0: "\<forall>r \<in> set rows0. 0 < trade_price r" using c u by (simp add: rows0_def)
  then have nz: "\<not> (\<exists>r \<in> set rows0. trade_price r = 0)" by force
  have "rows_cost rows1 \<le> of_nat (length rows0) * share"
    unfolding rows1_def by (rule first_lots_cost [OF share pos0])
  also have "\<dots> = budget" using ne by (simp add: share_def rows0_def)
  finally have rem0: "0 \<le> rem0" by (simp add: rem0_def)
  have in1: "r \<in> set rows1 \<Longrightarrow> \<exists>r0 \<in> set rows0. r = r0\<lparr>trade_shares := rat_of_int \<lfloor>share / trade_price r0\<rfloor>\<rparr>"
    for r unfolding rows1_def by auto
  have props1: "0 < trade_price r \<and> 0 \<le> trade_shares r \<and>
      trade_price r = bar_close (row r) * trading_unit ctx" if "r \<in> set rows1" for r
  proof -
    from in1 [OF that] obtain r0 where r0: "r0 \<in> set rows0"
      and r: "r = r0\<lparr>trade_shares := rat_of_int \<lfloor>share / trade_price r0\<rfloor>\<rparr>" by blast
    from pos0 r0 have p: "0 < trade_price r0" by blast
    from r0 have "trade_price r0 = bar_close (row r0) * trading_unit ctx"
      unfolding rows0_def by auto
    with floor_step(1) [OF share p] p r show ?thesis by simp
  qed
  have set_sorted: "set sorted_rows = set rows1" by (simp add: sorted_rows_def)
  have poss: "\<forall>r \<in> set sorted_rows. 0 < trade_price r" using props1 set_sorted by blast
  have shs: "\<forall>r \<in> set sorted_rows. 0 \<le> trade_shares r" using props1 set_sorted by blast
  obtain rows rem where red: "redistribute rem0 sorted_rows = (rows, rem)"
    by (cases "redistribute rem0 sorted_rows")
  from redistribute_spec [OF poss rem0 red] shs
  have r: "0 \<le> rem" "rows_cost rows + rem = rows_cost sorted_rows + rem0"
    "\<forall>r \<in> set sorted_rows. rem < trade_price r" "map row rows = map row sorted_rows"
    "map trade_price rows = map trade_price sorted_rows" "\<forall>r \<in> set rows. 0 \<le> trade_shares r"
    by simp_all
  have "rows_cost sorted_rows = rows_cost rows1"
    unfolding rows_cost_def sorted_rows_def by (rule sum_list_sort_key)
  with r(2) have total: "rows_cost rows + rem = budget" by (simp add: rem0_def)
  have cheap: "\<forall>b \<in> set pool_df. rem < bar_close b * trading_unit ctx"
  proof
    fix b assume "b \<in> set pool_df"
    then have "\<exists>r \<in> set rows1. trade_price r = bar_close b * trading_unit ctx"
      unfolding rows1_def rows0_def by (auto simp: image_iff)
    with r(3) set_sorted show "rem < bar_close b * trading_unit ctx" by auto
  qed
  have len: "length rows = length sorted_rows" using r(4) by (metis length_map)
  have tp: "\<forall>r \<in> set rows. trade_price r = bar_close (row r) * trading_unit ctx"
  proof
    fix x assume "x \<in> set rows"
    then obtain i where i: "i < length rows" and x: "x = rows ! i" by (auto simp: in_set_conv_nth)
    from i len have "sorted_rows ! i \<in> set sorted_rows" by simp
    with props1 set_sorted have "trade_price (sorted_rows ! i) =
        bar_close (row (sorted_rows ! i)) * trading_unit ctx" by blast
    moreover from r(4) i len have "row x = row (sorted_rows ! i)"
      unfolding x by (metis nth_map)
    moreover from r(5) i len have "trade_price x = trade_price (sorted_rows ! i)"
      unfolding x by (metis nth_map)
    ultimately show "trade_price x = bar_close (row x) * trading_unit ctx" by simp
  qed
  have "allocate ctx pool_df budget = Inr (redistribute rem0 sorted_rows)"
    using nz unfolding allocate_def Let_def rem0_def sorted_rows_def rows1_def rows0_def share_def
    by simp
  with red r(1,6) total cheap tp show ?thesis by auto
qed

text \<open>
  C8. For a pool of candidates with positive close prices, a positive lot size and a
  positive budget, \<open>generate_positions\<close> returns positions whose total cost (close
  price times shares, summed) does not exceed the budget; what is left of the budget
  after the redistribution is less than the per-lot price of every candidate of the
  pool, the cheapest included; every position has a positive number of shares, the
  positions being the rows of the final frame with \<open>trade_shares > 0\<close>.
\<close>

theorem sizing_conservation:
  assumes "0 < budget" and "0 < trading_unit ctx" and "\<forall>b \<in> set pool_df. 0 < bar_close b"
  shows "\<exists>ps. generate_positions ctx uuid k pool_df budget = Inr ps \<and>
           positions_cost ps \<le> budget \<and>
           (\<forall>b \<in> set pool_df. budget - positions_cost ps < bar_close b * trading_unit ctx) \<and>
           (\<forall>p \<in> set ps. 0 < shares p) \<and>
           (\<exists>rows rem. allocate ctx pool_df budget = Inr (rows, rem) \<and>
              map code ps = map (\<lambda>r. bar_code (row r)) (filter (\<lambda>r. 0 < trade_shares r) rows))"
proof (cases "pool_df = []")
  case True
  then show ?thesis
    using assms(1) by (simp add: generate_positions_def positions_cost_def allocate_def rows_cost_def)
next
  case False
  from allocate_spec [OF assms False] obtain rows rem where
    al: "allocate ctx pool_df budget = Inr (rows, rem)" and rem: "0 \<le> rem"
    and total: "rows_cost rows + rem = budget"
    and cheap: "\<forall>b \<in> set pool_df. rem < bar_close b * trading_unit ctx"
    and sh: "\<forall>r \<in> set rows. 0 \<le> trade_shares r"
    and tp: "\<forall>r \<in> set rows. trade_price r = bar_close (row r) * trading_unit ctx"
    by blast
  let ?kept = "filter (\<lambda>r. 0 < trade_shares r) rows"
  let ?ps = "new_positions ctx uuid k ?kept"
  have gen: "generate_positions ctx uuid k pool_df budget = Inr ?ps"
    using False assms(1) al by (simp add: generate_positions_def)
  have "positions_cost ?ps = rows_cost ?kept"
    unfolding new_positions_cost rows_cost_def
    by (rule arg_cong [where f = sum_list], rule map_cong) (use tp in \<open>auto simp: algebra_simps\<close>)
  also have "\<dots> = rows_cost rows" by (rule rows_cost_filter [OF sh])
  finally have cost: "positions_cost ?ps = budget - rem" using total by simp
  have "\<forall>p \<in> set ?ps. 0 < shares p"
    by (rule new_positions_shares [OF assms(2)]) simp
  with gen cost rem cheap al new_positions_codes [of ctx uuid k ?kept] show ?thesis
    by auto
qed

theorem sizing_conservation_witness:
  "(0::rat) < 5000 \<and> 0 < trading_unit (ex_context 8 10 5) \<and>
   0 < bar_close (ex_bar ''000001'' 10 10 10 10) \<and> 0 < bar_close (ex_bar ''000002'' 3 3 3 3) \<and>
   (\<exists>ps. generate_positions (ex_context 8 10 5) (\<lambda>n. ''4f2a'') 0
            [ex_bar ''000001'' 10 10 10 10, ex_bar ''000002'' 3 3 3 3] 5000 = Inr ps \<and>
         positions_cost ps \<le> 5000 \<and> 5000 - positions_cost ps < 300 \<and>
         list_all (\<lambda>p. 0 < shares p) ps)"
proof -
  let ?ctx = "ex_context 8 10 5"
  let ?pool = "[ex_bar ''000001'' 10 10 10 10, ex_bar ''000002'' 3 3 3 3]"
  have h1: "(0::rat) < 5000" by simp
  have h2: "0 < trading_unit ?ctx" by simp
  have h3: "\<forall>b \<in> set ?pool. 0 < bar_close b" by simp
  from sizing_conservation [OF h1 h2 h3, of "\<lambda>n. ''4f2a''" 0]
  obtain ps where "generate_positions ?ctx (\<lambda>n. ''4f2a'') 0 ?pool 5000 = Inr ps"
    "positions_cost ps \<le> 5000"
    "\<forall>b \<in> set ?pool. 5000 - positions_cost ps < bar_close b * trading_unit ?ctx"
    "\<forall>p \<in> set ps. 0 < shares p" by blast
  then have "generate_positions ?ctx (\<lambda>n. ''4f2a'') 0 ?pool 5000 = Inr ps \<and>
         positions_cost ps \<le> 5000 \<and> 5000 - positions_cost ps < 300 \<and>
         list_all (\<lambda>p. 0 < shares p) ps"
    by (simp add: list_all_iff)
  then show ?thesis by (intro conjI exI [of _ ps]) simp_all
qed

section \<open>Price adjustment\<close>

lemma advance_in_range:
  assumes "sorted fac_ts" and "i + 1 < length fac_ts" and "ts < last fac_ts"
  shows "\<exists>j. advance fac_ts ts i = Inr j \<and> i \<le> j \<and> j + 1 < length fac_ts \<and>
             ts < fac_ts ! (j + 1) \<and> (j = i \<or> fac_ts ! j \<le> ts)"
  using assms
proof (induction fac_ts ts i rule: advance.induct)
  case (1 fac_ts ts i)
  show ?case
  proof (cases "ts < fac_ts ! (i + 1)")
    case True
    with "1.prems"(2) have "advance fac_ts ts i = Inr i"
      by (subst advance.simps) simp
    with True "1.prems"(2) show ?thesis by simp
  next
    case False
    then have le: "fac_ts ! (i + 1) \<le> ts" by simp
    have "i + 1 \<noteq> length fac_ts - 1"
    proof
      assume "i + 1 = length fac_ts - 1"
      with "1.prems"(2) have "fac_ts ! (i + 1) = last fac_ts"
        by (metis last_conv_nth length_0_conv not_less_zero)
      with le "1.prems"(3) show False by simp
    qed
    with "1.prems"(2) have lt: "i + 1 + 1 < length fac_ts" by simp
    have nle: "\<not> length fac_ts \<le> i + 1" using "1.prems"(2) by simp
    from "1.IH" [OF nle False "1.prems"(1) lt "1.prems"(3)]
    obtain j where j: "advance fac_ts ts (i + 1) = Inr j" "i + 1 \<le> j"
      "j + 1 < length fac_ts" "ts < fac_ts ! (j + 1)" "j = i + 1 \<or> fac_ts ! j \<le> ts"
      by blast
    from j(5) le have "fac_ts ! j \<le> ts" by auto
    moreover have "advance fac_ts ts i = Inr j"
      using nle False j(1) by (subst advance.simps) simp
    ultimately show ?thesis using j(2,3,4) by auto
  qed
qed

lemma filter_sorted_take:
  assumes "sorted (map f xs)" and "j + 1 < length xs"
    and "f (xs ! j) \<le> t" and "t < f (xs ! (j + 1))"
  shows "filter (\<lambda>x. f x \<le> t) xs = take (j + 1) xs"
proof -
  have low: "\<forall>x \<in> set (take (j + 1) xs). f x \<le> t"
  proof
    fix x assume "x \<in> set (take (j + 1) xs)"
    then obtain k where k: "k < j + 1" "k < length xs" and x: "x = xs ! k"
      by (auto simp: in_set_conv_nth)
    from assms(1,2) k have "map f xs ! k \<le> map f xs ! j"
      by (intro sorted_nth_mono) simp_all
    with assms(2,3) k x show "f x \<le> t" by simp
  qed
  have high: "\<forall>x \<in> set (drop (j + 1) xs). \<not> f x \<le> t"
  proof
    fix x assume "x \<in> set (drop (j + 1) xs)"
    then obtain k where k: "k < length xs - (j + 1)" and x: "x = xs ! (j + 1 + k)"
      by (auto simp: in_set_conv_nth)
    from assms(1,2) k have "map f xs ! (j + 1) \<le> map f xs ! (j + 1 + k)"
      by (intro sorted_nth_mono) simp_all
    with assms(2,4) k x show "\<not> f x \<le> t" by simp
  qed
  have "filter (\<lambda>x. f x \<le> t) xs =
      filter (\<lambda>x. f x \<le> t) (take (j + 1) xs) @ filter (\<lambda>x. f x \<le> t) (drop (j + 1) xs)"
    by (metis append_take_drop_id filter_append)
  also have "filter (\<lambda>x. f x \<le> t) (take (j + 1) xs) = take (j + 1) xs"
    using low by (simp add: filter_id_conv)
  also have "filter (\<lambda>x. f x \<le> t) (drop (j + 1) xs) = []"
    using high by (simp add: filter_empty_conv)
  finally show ?thesis by simp
qed

lemma filter_sorted_none:
  assumes "sorted (map f xs)" and "xs \<noteq> []" and "t < f (xs ! 0)"
  shows "filter (\<lambda>x. f x \<le> t) xs = []"
proof -
  have "\<forall>x \<in> set xs. \<not> f x \<le> t"
  proof
    fix x assume "x \<in> set xs"
    then obtain k where k: "k < length xs" and x: "x = xs ! k"
      by (auto simp: in_set_conv_nth)
    from assms(1,2) k have "map f xs ! 0 \<le> map f xs ! k"
      by (intro sorted_nth_mono) simp_all
    with assms(2,3) k x show "\<not> f x \<le> t" by simp
  qed
  then show ?thesis by (simp add: filter_empty_conv)
qed

lemma factor_in_force_last:
  "filter (\<lambda>f. fst f \<le> ts) adj = fs \<Longrightarrow> fs \<noteq> [] \<Longrightarrow>
   factor_in_force adj ts = Some (snd (last fs))"
  by (cases fs) (simp_all add: factor_in_force_def)

lemma assign_from_in_range:
  fixes adj :: "('t::linorder \<times> rat) list"
  assumes "sorted (map fst adj)" and "i + 1 < length adj" and "sorted tss"
    and "\<forall>ts \<in> set tss. ts < fst (last adj)"
    and "i = 0 \<or> (\<forall>ts \<in> set tss. fst (adj ! i) \<le> ts)"
  shows "assign_from (map fst adj) (map snd adj) i tss =
           Inr (map (\<lambda>ts. case factor_in_force adj ts of Some v \<Rightarrow> v | None \<Rightarrow> snd (adj ! 0))
                  tss)"
  using assms(2-5)
proof (induction tss arbitrary: i)
  case Nil
  then show ?case by simp
next
  case (Cons ts rest)
  have ne: "adj \<noteq> []" using Cons.prems(1) by auto
  have last: "ts < last (map fst adj)" using Cons.prems(3) ne by (simp add: last_map)
  from advance_in_range [OF assms(1) _ last, of i] Cons.prems(1)
  obtain j where j: "advance (map fst adj) ts i = Inr j" "i \<le> j" "j + 1 < length adj"
    "ts < fst (adj ! (j + 1))" "j = i \<or> fst (adj ! j) \<le> ts"
    by auto
  have val: "(case factor_in_force adj ts of Some v \<Rightarrow> v | None \<Rightarrow> snd (adj ! 0)) =
      snd (adj ! j)"
  proof (cases "fst (adj ! j) \<le> ts")
    case True
    from filter_sorted_take [OF assms(1) j(3) True j(4)]
    have f: "filter (\<lambda>f. fst f \<le> ts) adj = take (j + 1) adj" .
    have "take (j + 1) adj \<noteq> []" using ne by simp
    moreover have "last (take (j + 1) adj) = adj ! j"
    proof -
      have "length (take (j + 1) adj) = j + 1" using j(3) by simp
      with \<open>take (j + 1) adj \<noteq> []\<close> have "last (take (j + 1) adj) = take (j + 1) adj ! j"
        by (simp add: last_conv_nth)
      then show ?thesis by simp
    qed
    ultimately show ?thesis
      using factor_in_force_last [OF f] by simp
  next
    case False
    with j(5) have ji: "j = i" by simp
    with False Cons.prems(4) have i0: "i = 0" by auto
    with False ji have "ts < fst (adj ! 0)" by simp
    from filter_sorted_none [OF assms(1) ne this]
    show ?thesis by (simp add: factor_in_force_def ji i0)
  qed
  have inv: "j = 0 \<or> (\<forall>t \<in> set rest. fst (adj ! j) \<le> t)"
  proof (cases "fst (adj ! j) \<le> ts")
    case True
    with Cons.prems(2) show ?thesis by auto
  next
    case False
    with j(5) have "j = i" by simp
    with False Cons.prems(4) show ?thesis by auto
  qed
  have "sorted rest" and "\<forall>t \<in> set rest. t < fst (last adj)"
    using Cons.prems(2,3) by simp_all
  from Cons.IH [OF j(3) this inv] j(1,3) val show ?case by simp
qed

text \<open>
  Inside the series the scan does compute the step function: with at least two
  factors in ascending order and bars in ascending order, all dated before the last
  factor, every bar gets the factor in force on its date, and the first factor when
  it is dated before all of them.
\<close>

lemma assign_factor_in_range:
  fixes adj :: "('t::linorder \<times> rat) list"
  assumes "sorted (map fst adj)" and "2 \<le> length adj" and "sorted timestamps"
    and "\<forall>ts \<in> set timestamps. ts < fst (last adj)"
  shows "assign_factor_value_to_day (map fst adj) (map snd adj) timestamps =
           Inr (map (\<lambda>ts. case factor_in_force adj ts of Some v \<Rightarrow> v | None \<Rightarrow> snd (hd adj))
                  timestamps)"
proof -
  from assms(2) have "adj \<noteq> []" by auto
  with assms(2) have len: "0 + 1 < length adj" and hd: "hd adj = adj ! 0"
    by (simp_all add: hd_conv_nth)
  show ?thesis
    unfolding assign_factor_value_to_day_def hd
    by (rule assign_from_in_range [OF assms(1) len assms(3,4)]) simp
qed

text \<open>
  C3 (the code departs from it). With factors dated 2023-01-02 and 2023-03-01, a bar
  dated 2023-03-01 should get the factor in force on that day, 2; the scan reads
  \<open>fac_ts[2]\<close> past the end of the list and raises \<open>IndexError\<close>, as it does for every
  bar dated on or after the last factor's date. A bar dated 2022-12-30, before the
  first factor, has no factor in force and is given the first factor.
\<close>

theorem assign_factor_last_date_fails:
  "assign_factor_value_to_day [''2023-01-02'', ''2023-03-01''] [1, 2] [''2023-03-01'']
     = Inl IndexError \<and>
   factor_in_force [(''2023-01-02'', 1), (''2023-03-01'', 2)] ''2023-03-01'' = Some 2 \<and>
   assign_factor_value_to_day [''2023-01-02'', ''2023-03-01''] [1, 2] [''2022-12-30'']
     = Inr [1] \<and>
   factor_in_force [(''2023-01-02'', 1), (''2023-03-01'', 2)] ''2022-12-30'' = None"
  by (simp add: assign_factor_value_to_day_def factor_in_force_def advance.simps)

section \<open>The buy pool\<close>

text \<open>
  C5 (the code departs from it). With a limit of one new open and buy signals for
  000001 and 000002, the pool is replaced by a sample of one row of the whole day
  frame: for a draw that picks the third row the pool is 000003, a symbol without a
  buy signal.
\<close>

theorem pool_sampled_from_whole_frame:
  "get_pool_and_budget (ex_context 8 10 1) (ex_account 0 10000) (\<lambda>k. 2) 0
     [ex_bar ''000001'' 10 10 10 10, ex_bar ''000002'' 3 3 3 3, ex_bar ''000003'' 5 5 5 5]
     [(''2023-01-04'', ''000001''), (''2023-01-04'', ''000002'')] 10000
   = Inr ([ex_bar ''000003'' 5 5 5 5], 10000) \<and>
   bar_index (ex_bar ''000003'' 5 5 5 5)
     \<notin> set [(''2023-01-04'', ''000001''), (''2023-01-04'', ''000002'')]"
  by (simp add: get_pool_and_budget_def sample_def bar_index_def get_total_asset_value_def
      get_total_worth_def)

lemma length_pick_rows:
  "n \<le> length xs \<Longrightarrow> length (pick_rows draw k xs n) = n"
proof (induction n arbitrary: k xs)
  case 0
  then show ?case by simp
next
  case (Suc n)
  then have ne: "xs \<noteq> []" by auto
  let ?i = "draw k mod length xs"
  have i: "?i < length xs" using ne by simp
  then have "length (take ?i xs @ drop (Suc ?i) xs) = length xs - 1" by simp
  with Suc.prems have "n \<le> length (take ?i xs @ drop (Suc ?i) xs)" by simp
  from Suc.IH [OF this] ne show ?case by (simp add: Let_def)
qed

lemma set_pick_rows: "set (pick_rows draw k xs n) \<subseteq> set xs"
proof (induction n arbitrary: k xs)
  case 0
  then show ?case by simp
next
  case (Suc n)
  show ?case
  proof (cases "xs = []")
    case True
    then show ?thesis by simp
  next
    case False
    let ?i = "draw k mod length xs"
    have i: "?i < length xs" using False by simp
    have "set (take ?i xs @ drop (Suc ?i) xs) \<subseteq> set xs"
      by (auto dest: in_set_takeD in_set_dropD)
    with Suc.IH [of "Suc k" "take ?i xs @ drop (Suc ?i) xs"] i False show ?thesis
      by (auto simp: Let_def)
  qed
qed

section \<open>The trading loop\<close>

lemmas trade_day_defs =
  trade_day_def account_tick_def price_lookup_def row_at_def bar_index_def
  get_close_signals_def get_buy_signals_def position_codes_def
  exit_decision_def should_take_profit_def should_stop_loss_def calc_pct_chg_def
  price_at_pct_change_def truthy_def close_def update_price_def
  trade_book_sell_def pct_chg_at_def chg_at_def
  account_sell_def holdings_sell_def take_sell_commissions_def
  buy_step_def get_pool_and_budget_def generate_positions_def allocate_def rows_cost_def
  get_total_asset_value_def get_total_worth_def account_buy_def holdings_buy_def
  add_buy_commissions_def log_capitals_def new_position_def post_init_def round_defs

text \<open>
  C4 (the code departs from it). The snapshot is taken when the day has buy signals or
  close signals, not when a position was opened or closed. A day on which the held
  position exits by take-profit, with no close and no buy signal, logs the exit and
  no capital snapshot; a day with a buy signal and too little cash for one lot opens
  nothing and is snapshotted.
\<close>

theorem exit_day_not_snapshotted:
  "trade_day (ex_context 8 10 5) (ex_strategy False) (\<lambda>k. ''4f2a'') (\<lambda>k. 0)
     (''2023-01-04'', [ex_bar ''000001'' 10 (23 / 2) (49 / 5) 11])
     (ex_state 0 [(''000001'', ex_position 10 100)]) =
   Inr \<lparr>sim_account = ex_account 0 1100,
        sim_book =
          \<lparr>trade_logs =
             [\<lparr>log_timestamp = ''2023-01-04'', log_tag = TAKE_PROFIT,
               log_pos_id = ''PAB-4f2a'', log_code = ''000001'',
               log_shares = 100, log_price = 11, log_total_value = 1100,
               log_chg = Some 1, log_pct_chg = Some 10,
               log_total_return = Some 100\<rparr>],
           capital_logs = []\<rparr>\<rparr> \<and>
   trade_day (ex_context 8 10 5) (ex_strategy True) (\<lambda>k. ''4f2a'') (\<lambda>k. 0)
     (''2023-01-04'', [ex_bar ''000001'' 10 (21 / 2) (49 / 5) 10])
     (ex_state 50 []) =
   Inr \<lparr>sim_account = ex_account 0 50,
        sim_book =
          \<lparr>trade_logs = [],
           capital_logs =
             [\<lparr>cap_timestamp = ''2023-01-04'', positions_value = 0,
               free_cash_amount = 50\<rparr>]\<rparr>\<rparr>"
  by (simp add: trade_day_defs)

theorem exit_day_not_snapshotted_witness:
  "map_sum id (\<lambda>st. (map log_tag (trade_logs (sim_book st)), capital_logs (sim_book st)))
     (trade_day (ex_context 8 10 5) (ex_strategy False) (\<lambda>k. ''4f2a'') (\<lambda>k. 0)
        (''2023-01-04'', [ex_bar ''000001'' 10 (23 / 2) (49 / 5) 11])
        (ex_state 0 [(''000001'', ex_position 10 100)])) =
   Inr ([TAKE_PROFIT], []) \<and>
   map_sum id (\<lambda>st. (map log_tag (trade_logs (sim_book st)),
                       map cap_timestamp (capital_logs (sim_book st))))
     (trade_day (ex_context 8 10 5) (ex_strategy True) (\<lambda>k. ''4f2a'') (\<lambda>k. 0)
        (''2023-01-04'', [ex_bar ''000001'' 10 (21 / 2) (49 / 5) 10])
        (ex_state 50 [])) =
   Inr ([], [''2023-01-04''])"
  using exit_day_not_snapshotted by simp

text \<open>
  C6 (the code departs from it). With 000001 held and a day frame that holds 000002
  only, the mark-to-market step looks the close of 000001 up in the frame and the
  day ends with \<open>KeyError\<close>; the exit loop on the same day would skip the position and
  leave it as it is.
\<close>

theorem absent_symbol_tick_fails:
  "trade_day (ex_context 8 10 5) (ex_strategy False) (\<lambda>k. ''4f2a'') (\<lambda>k. 0)
     (''2023-01-04'', [ex_bar ''000002'' 10 (23 / 2) (49 / 5) 11])
     (ex_state 0 [(''000001'', ex_position 10 100)]) = Inl KeyError \<and>
   resolve_exits (ex_context 8 10 5) ''2023-01-04''
     [ex_bar ''000002'' 10 (23 / 2) (49 / 5) 11] [] [(''000001'', ex_position 10 100)]
     new_trade_book =
   Inr ([(''000001'', ex_position 10 100)], [], new_trade_book)"
  by (simp add: trade_day_defs)

theorem absent_symbol_tick_fails_witness:
  "isl (trade_day (ex_context 8 10 5) (ex_strategy False) (\<lambda>k. ''4f2a'') (\<lambda>k. 0)
     (''2023-01-04'', [ex_bar ''000002'' 10 (23 / 2) (49 / 5) 11])
     (ex_state 0 [(''000001'', ex_position 10 100)]))"
  using absent_symbol_tick_fails by simp

section \<open>Runs compared\<close>

lemma anon_pos_fields [simp]:
  "code (anon_pos p) = code p" "price (anon_pos p) = price p"
  "shares (anon_pos p) = shares p" "latest_price (anon_pos p) = latest_price p"
  "timestamp (anon_pos p) = timestamp p" "company (anon_pos p) = company p"
  "pos_id (anon_pos p) = []"
  by (simp_all add: anon_pos_def)

lemma anon_holdings_simps [simp]:
  "anon_holdings [] = []"
  "anon_holdings ((c, p) # h) = (c, anon_pos p) # anon_holdings h"
  "anon_holdings h = [] \<longleftrightarrow> h = []"
  by (simp_all add: anon_holdings_def)

lemma anon_account_fields [simp]:
  "holdings (anon_account a) = anon_holdings (holdings a)"
  "cash_amount (anon_account a) = cash_amount a"
  "buy_commission_rate (anon_account a) = buy_commission_rate a"
  "sell_commission_rate (anon_account a) = sell_commission_rate a"
  by (simp_all add: anon_account_def)

lemma keys_anon [simp]: "map fst (anon_holdings h) = map fst h"
  by (induction h) auto

lemma position_codes_anon [simp]: "position_codes (anon_holdings h) = position_codes h"
  unfolding position_codes_def by (metis keys_anon set_map)

lemma total_worth_anon [simp]: "get_total_worth (anon_holdings h) = get_total_worth h"
  by (induction h) (auto simp: get_total_worth_def)

lemma total_asset_value_anon [simp]:
  "get_total_asset_value (anon_account a) = get_total_asset_value a"
  by (simp add: get_total_asset_value_def)

lemma holdings_tick_anon:
  "holdings_tick lk (anon_holdings h) = map_sum id anon_holdings (holdings_tick lk h)"
  by (induction h) (auto simp: update_price_def anon_pos_def split: sum.splits)

lemma account_tick_anon:
  "account_tick (anon_account a) lk = map_sum id anon_account (account_tick a lk)"
  by (cases "holdings_tick lk (holdings a)")
     (simp_all add: account_tick_def holdings_tick_anon anon_account_def)

lemma close_signals_anon [simp]:
  "get_close_signals (anon_account a) strat df = get_close_signals a strat df"
  by (simp add: get_close_signals_def)

lemma buy_signals_anon [simp]:
  "get_buy_signals (anon_account a) strat df = get_buy_signals a strat df"
  by (simp add: get_buy_signals_def)

lemma price_at_pct_change_anon [simp]:
  "price_at_pct_change (anon_pos p) x = price_at_pct_change p x"
  by (simp add: price_at_pct_change_def)

lemma should_take_profit_anon [simp]:
  "should_take_profit ctx tick (anon_pos p) = should_take_profit ctx tick p"
  by (simp add: should_take_profit_def split: sum.splits)

lemma should_stop_loss_anon [simp]:
  "should_stop_loss ctx tick (anon_pos p) = should_stop_loss ctx tick p"
  by (simp add: should_stop_loss_def split: sum.splits)

lemma exit_decision_anon [simp]:
  "exit_decision ctx tick (anon_pos p) b = exit_decision ctx tick p b"
  unfolding exit_decision_def should_take_profit_anon should_stop_loss_anon ..

lemma close_anon: "close (anon_pos p) x = anon_pos (close p x)"
  by (simp add: close_def anon_pos_def)

lemma anon_book_fields [simp]:
  "trade_logs (anon_book tb) = map anon_log (trade_logs tb)"
  "capital_logs (anon_book tb) = capital_logs tb"
  by (simp_all add: anon_book_def)

lemma trade_book_sell_anon:
  "trade_book_sell ts (anon_pos p) action (anon_book tb) =
     map_sum id anon_book (trade_book_sell ts p action tb)"
  by (cases "calc_pct_chg (price p) (latest_price p)")
     (simp_all add: trade_book_sell_def pct_chg_at_def chg_at_def anon_book_def anon_log_def)

lemma trade_book_buy_anon:
  "trade_book_buy ts (anon_pos p) (anon_book tb) = anon_book (trade_book_buy ts p tb)"
  by (simp add: trade_book_buy_def anon_book_def anon_log_def)

lemma fold_trade_book_buy_anon:
  "fold (trade_book_buy ts) (map anon_pos ps) (anon_book tb) =
     anon_book (fold (trade_book_buy ts) ps tb)"
  by (induction ps arbitrary: tb) (simp_all add: trade_book_buy_anon)

lemma log_capitals_anon:
  "log_capitals ts c v (anon_book tb) = anon_book (log_capitals ts c v tb)"
  by (simp add: log_capitals_def anon_book_def)

lemma resolve_exits_anon:
  "resolve_exits ctx ts df ci (anon_holdings h) (anon_book tb) =
     map_sum id (\<lambda>(h', sells, tb'). (anon_holdings h', map anon_pos sells, anon_book tb'))
       (resolve_exits ctx ts df ci h tb)"
proof (induction h arbitrary: tb)
  case Nil
  then show ?case by simp
next
  case (Cons e h)
  obtain c p where e: "e = (c, p)" by (cases e)
  show ?case
    unfolding e
    by (auto simp: Cons.IH close_anon trade_book_sell_anon
        split: option.splits sum.splits prod.splits)
qed

lemma delete_anon:
  "AList.delete k (anon_holdings h) = anon_holdings (AList.delete k h)"
  by (induction h) auto

lemma update_anon:
  "AList.update k (anon_pos p) (anon_holdings h) = anon_holdings (AList.update k p h)"
  by (induction h) auto

lemma fold_delete_anon:
  "fold (\<lambda>p. AList.delete (code p)) (map anon_pos ps) (anon_holdings h) =
     anon_holdings (fold (\<lambda>p. AList.delete (code p)) ps h)"
  by (induction ps arbitrary: h) (simp_all add: delete_anon)

lemma fold_update_anon:
  "fold (\<lambda>p. AList.update (code p) p) (map anon_pos ps) (anon_holdings h) =
     anon_holdings (fold (\<lambda>p. AList.update (code p) p) ps h)"
  by (induction ps arbitrary: h) (simp_all add: update_anon)

lemma account_sell_anon:
  "account_sell (anon_account a) (map anon_pos ps) = anon_account (account_sell a ps)"
  by (simp add: account_sell_def holdings_sell_def fold_delete_anon take_sell_commissions_def
      anon_account_def comp_def)

lemma account_buy_anon:
  "account_buy (anon_account a) (map anon_pos ps) = anon_account (account_buy a ps)"
  by (simp add: account_buy_def holdings_buy_def fold_update_anon add_buy_commissions_def
      anon_account_def comp_def)

lemma filter_same_key:
  "distinct (map f xs) \<Longrightarrow> x \<in> set xs \<Longrightarrow> filter (\<lambda>y. f y = f x) xs = [x]"
proof (induction xs)
  case Nil
  then show ?case by simp
next
  case (Cons a xs)
  show ?case
  proof (cases "a = x")
    case True
    with Cons.prems have "\<forall>y \<in> set xs. f y \<noteq> f x" by (auto simp: image_iff)
    then have "filter (\<lambda>y. f y = f x) xs = []" by (simp add: filter_empty_conv)
    with True show ?thesis by simp
  next
    case False
    with Cons.prems have x: "x \<in> set xs" and "f a \<noteq> f x" by (auto simp: image_iff)
    with Cons show ?thesis by simp
  qed
qed

lemma loc_rows_distinct:
  "distinct (map bar_index df) \<Longrightarrow> set rs \<subseteq> set df \<Longrightarrow>
   loc_rows df (map bar_index rs) = Inr rs"
proof (induction rs)
  case Nil
  then show ?case by simp
next
  case (Cons r rs)
  then have "filter (\<lambda>y. bar_index y = bar_index r) df = [r]"
    by (simp add: filter_same_key)
  with Cons show ?case by simp
qed

lemma pool_within_limit:
  assumes "within_limit ctx strat (ts, df)"
  shows "get_pool_and_budget ctx a draw k df (get_buy_signals a strat df) budget =
     (let pool_df = filter (\<lambda>r. bar_code r \<notin> position_codes (holdings a) \<and> should_buy strat r) df
      in if pool_df = [] then Inl ZeroDivisionError
         else if max_position_size ctx * get_total_asset_value a
                   < rat_of_int \<lfloor>budget / of_nat (length pool_df)\<rfloor>
              then Inr (pool_df, of_nat (length pool_df) *
                          (max_position_size ctx * get_total_asset_value a))
              else Inr (pool_df, budget))"
proof -
  let ?P = "\<lambda>r. bar_code r \<notin> position_codes (holdings a) \<and> should_buy strat r"
  let ?pool = "filter ?P df"
  from assms have d: "distinct (map bar_index df)"
    and lim: "int (length (filter (should_buy strat) df)) \<le> max_position_opens ctx"
    by (simp_all add: within_limit_def)
  have loc: "loc_rows df (map bar_index ?pool) = Inr ?pool"
    by (rule loc_rows_distinct [OF d]) auto
  have "?pool = filter (\<lambda>r. bar_code r \<notin> position_codes (holdings a)) (filter (should_buy strat) df)"
    by (simp add: conj_commute)
  then have "length ?pool \<le> length (filter (should_buy strat) df)"
    by (metis length_filter_le)
  with lim have "\<not> max_position_opens ctx < int (length ?pool)" by simp
  with loc show ?thesis
    by (simp add: get_pool_and_budget_def get_buy_signals_def Let_def)
qed

lemma pool_anon:
  assumes "within_limit ctx strat (ts, df)"
  shows "get_pool_and_budget ctx (anon_account a) draw' k' df (get_buy_signals a strat df) budget =
         get_pool_and_budget ctx a draw k df (get_buy_signals a strat df) budget"
proof -
  have "get_pool_and_budget ctx (anon_account a) draw' k' df
          (get_buy_signals (anon_account a) strat df) budget =
        get_pool_and_budget ctx a draw k df (get_buy_signals a strat df) budget"
    unfolding pool_within_limit [OF assms] anon_account_fields position_codes_anon
      total_asset_value_anon ..
  then show ?thesis by simp
qed

lemma new_position_anon:
  "anon_pos (new_position ctx u r) = anon_pos (new_position ctx u' r)"
  by (simp add: new_position_def post_init_def anon_pos_def Let_def)

lemma new_positions_anon:
  "map anon_pos (new_positions ctx uuid k rs) = map anon_pos (new_positions ctx uuid' k' rs)"
  by (induction rs arbitrary: k k') (auto simp: new_position_anon)

lemma generate_positions_anon:
  "map_sum id (map anon_pos) (generate_positions ctx uuid k pool_df budget) =
   map_sum id (map anon_pos) (generate_positions ctx uuid' k' pool_df budget)"
  by (cases "allocate ctx pool_df budget")
     (auto simp: generate_positions_def new_positions_anon)

lemma anon_pos_idem [simp]: "anon_pos (anon_pos p) = anon_pos p"
  by (simp add: anon_pos_def)

lemma anon_holdings_idem [simp]: "anon_holdings (anon_holdings h) = anon_holdings h"
  by (induction h) auto

lemma anon_account_idem [simp]: "anon_account (anon_account a) = anon_account a"
  by (simp add: anon_account_def)

lemma anon_book_idem [simp]: "anon_book (anon_book tb) = anon_book tb"
  by (simp add: anon_book_def anon_log_def)

lemma anon_state_fields [simp]:
  "sim_account (anon_state st) = anon_account (sim_account st)"
  "sim_book (anon_state st) = anon_book (sim_book st)"
  by (simp_all add: anon_state_def)

lemma anon_state_idem [simp]: "anon_state (anon_state st) = anon_state st"
  by (simp add: anon_state_def)

lemma anon_state_mk [simp]:
  "anon_state \<lparr>sim_account = a, sim_book = tb\<rparr> =
     \<lparr>sim_account = anon_account a, sim_book = anon_book tb\<rparr>"
  by (simp add: anon_state_def)

lemma buy_step_anon:
  assumes "within_limit ctx strat (ts, df)"
  shows "map_sum id anon_state
           (buy_step ctx uuid draw ts df (get_buy_signals (sim_account st) strat df) st) =
         map_sum id anon_state
           (buy_step ctx uuid' draw' ts df (get_buy_signals (sim_account st) strat df)
              (anon_state st))"
proof (cases "get_buy_signals (sim_account st) strat df = []")
  case True
  then show ?thesis by (simp add: buy_step_def)
next
  case False
  let ?a = "sim_account st"
  let ?ix = "get_buy_signals ?a strat df"
  have pool: "get_pool_and_budget ctx (anon_account ?a) draw' 0 df ?ix (cash_amount ?a) =
              get_pool_and_budget ctx ?a draw 0 df ?ix (cash_amount ?a)"
    by (rule pool_anon [OF assms])
  show ?thesis
  proof (cases "get_pool_and_budget ctx ?a draw 0 df ?ix (cash_amount ?a)")
    case (Inl e)
    with False pool show ?thesis by (simp add: buy_step_def)
  next
    case (Inr pb)
    obtain pool_df budget where pb: "pb = (pool_df, budget)" by (cases pb)
    note gen = generate_positions_anon [of ctx uuid 0 pool_df budget uuid' 0]
    show ?thesis
    proof (cases "generate_positions ctx uuid 0 pool_df budget")
      case (Inl e)
      with gen have "generate_positions ctx uuid' 0 pool_df budget = Inl e"
        by (cases "generate_positions ctx uuid' 0 pool_df budget") simp_all
      with Inl Inr pb False pool show ?thesis by (simp add: buy_step_def)
    next
      case ps: (Inr ps)
      with gen obtain ps' where ps': "generate_positions ctx uuid' 0 pool_df budget = Inr ps'"
        and eq: "map anon_pos ps = map anon_pos ps'"
        by (cases "generate_positions ctx uuid' 0 pool_df budget") simp_all
      have acc: "anon_account (account_buy ?a ps) =
                 anon_account (account_buy (anon_account ?a) ps')"
        using account_buy_anon [of ?a ps] account_buy_anon [of "anon_account ?a" ps'] eq
        by simp
      have book: "anon_book (fold (trade_book_buy ts) ps (sim_book st)) =
                  anon_book (fold (trade_book_buy ts) ps' (anon_book (sim_book st)))"
        using fold_trade_book_buy_anon [of ts ps "sim_book st"]
          fold_trade_book_buy_anon [of ts ps' "anon_book (sim_book st)"] eq
        by simp
      from False Inr pb pool ps ps' acc book show ?thesis
        by (simp add: buy_step_def)
    qed
  qed
qed

lemma trade_day_anon:
  assumes "within_limit ctx strat day"
  shows "map_sum id anon_state (trade_day ctx strat uuid draw day st) =
         map_sum id anon_state (trade_day ctx strat uuid' draw' day (anon_state st))"
proof -
  obtain ts df where day: "day = (ts, df)" by (cases day)
  let ?a = "sim_account st"
  let ?tb = "sim_book st"
  let ?lk = "price_lookup ts df"
  note lim = assms [unfolded day]
  show ?thesis
  proof (cases "account_tick ?a ?lk")
    case (Inl e)
    then show ?thesis by (simp add: day trade_day_def account_tick_anon)
  next
    case a1: (Inr a1)
    then have a1': "account_tick (anon_account ?a) ?lk = Inr (anon_account a1)"
      by (simp add: account_tick_anon)
    let ?ci = "get_close_signals a1 strat df"
    have ex': "resolve_exits ctx ts df ?ci (anon_holdings (holdings a1)) (anon_book ?tb) =
        map_sum id (\<lambda>(h', sells, tb'). (anon_holdings h', map anon_pos sells, anon_book tb'))
          (resolve_exits ctx ts df ?ci (holdings a1) ?tb)"
      by (rule resolve_exits_anon)
    show ?thesis
    proof (cases "resolve_exits ctx ts df ?ci (holdings a1) ?tb")
      case (Inl e)
      with a1 a1' ex' show ?thesis by (simp add: day trade_day_def)
    next
      case (Inr res)
      obtain h2 sells tb2 where res: "res = (h2, sells, tb2)" by (cases res)
      define a3 where
        "a3 = (if sells \<noteq> [] then account_sell (a1\<lparr>holdings := h2\<rparr>) sells
               else a1\<lparr>holdings := h2\<rparr>)"
      have a2: "(anon_account a1)\<lparr>holdings := anon_holdings h2\<rparr> =
                anon_account (a1\<lparr>holdings := h2\<rparr>)"
        by (simp add: anon_account_def)
      have a3': "(if map anon_pos sells \<noteq> []
                  then account_sell ((anon_account a1)\<lparr>holdings := anon_holdings h2\<rparr>)
                         (map anon_pos sells)
                  else (anon_account a1)\<lparr>holdings := anon_holdings h2\<rparr>) = anon_account a3"
        unfolding a2 a3_def by (simp add: account_sell_anon)
      let ?bi = "get_buy_signals a3 strat df"
      let ?s3 = "\<lparr>sim_account = a3, sim_book = tb2\<rparr>"
      note bs = buy_step_anon [OF lim, of uuid draw ?s3 uuid' draw']
      have lhs: "trade_day ctx strat uuid draw day st =
          (case buy_step ctx uuid draw ts df ?bi ?s3 of
             Inl e \<Rightarrow> Inl e
           | Inr st4 \<Rightarrow>
               if ?bi \<noteq> [] \<or> ?ci \<noteq> []
               then Inr (st4\<lparr>sim_book := log_capitals ts (cash_amount (sim_account st4))
                      (get_total_worth (holdings (sim_account st4))) (sim_book st4)\<rparr>)
               else Inr st4)"
        unfolding day trade_day_def Let_def prod.case a1 sum.case Inr res a3_def ..
      have rhs: "trade_day ctx strat uuid' draw' day (anon_state st) =
          (case buy_step ctx uuid' draw' ts df ?bi (anon_state ?s3) of
             Inl e \<Rightarrow> Inl e
           | Inr st4 \<Rightarrow>
               if ?bi \<noteq> [] \<or> ?ci \<noteq> []
               then Inr (st4\<lparr>sim_book := log_capitals ts (cash_amount (sim_account st4))
                      (get_total_worth (holdings (sim_account st4))) (sim_book st4)\<rparr>)
               else Inr st4)"
        unfolding day trade_day_def Let_def prod.case anon_state_fields a1' sum.case
          close_signals_anon anon_account_fields ex' Inr res map_sum.simps a3'
          buy_signals_anon anon_state_mk ..
      show ?thesis
      proof (cases "buy_step ctx uuid draw ts df ?bi ?s3")
        case (Inl e)
        with bs have "buy_step ctx uuid' draw' ts df ?bi (anon_state ?s3) = Inl e"
          by (cases "buy_step ctx uuid' draw' ts df ?bi (anon_state ?s3)") simp_all
        with Inl lhs rhs show ?thesis by simp
      next
        case s4: (Inr st4)
        with bs obtain st4' where
          s4': "buy_step ctx uuid' draw' ts df ?bi (anon_state ?s3) = Inr st4'"
          and eq: "anon_state st4 = anon_state st4'"
          by (cases "buy_step ctx uuid' draw' ts df ?bi (anon_state ?s3)") simp_all
        from eq have acc: "anon_account (sim_account st4) = anon_account (sim_account st4')"
          and book: "anon_book (sim_book st4) = anon_book (sim_book st4')"
          by (simp_all add: anon_state_def)
        from acc have cash: "cash_amount (sim_account st4) = cash_amount (sim_account st4')"
          by (metis anon_account_fields(2))
        from acc have worth: "get_total_worth (holdings (sim_account st4)) =
                              get_total_worth (holdings (sim_account st4'))"
          by (metis anon_account_fields(1) total_worth_anon)
        have logged: "anon_state (st4\<lparr>sim_book := log_capitals ts (cash_amount (sim_account st4))
                      (get_total_worth (holdings (sim_account st4))) (sim_book st4)\<rparr>) =
            anon_state (st4'\<lparr>sim_book := log_capitals ts (cash_amount (sim_account st4'))
                      (get_total_worth (holdings (sim_account st4'))) (sim_book st4')\<rparr>)"
          using acc book cash worth
          by (simp add: anon_state_def log_capitals_anon [symmetric])
        from s4 s4' lhs rhs eq logged show ?thesis by simp
      qed
    qed
  qed
qed

lemma trade_days_anon:
  assumes "\<forall>day \<in> set days. within_limit ctx strat day"
    and "anon_state st = anon_state st'"
  shows "map_sum id anon_state (trade_days ctx strat uuid draw d days st) =
         map_sum id anon_state (trade_days ctx strat uuid' draw' d' days st')"
  using assms
proof (induction days arbitrary: st st' d d')
  case Nil
  then show ?case by simp
next
  case (Cons day days)
  from Cons.prems have lim: "within_limit ctx strat day" by simp
  have "map_sum id anon_state (trade_day ctx strat (uuid d) (draw d) day st) =
        map_sum id anon_state (trade_day ctx strat (uuid d) (draw d) day (anon_state st))"
    by (rule trade_day_anon [OF lim])
  also have "\<dots> = map_sum id anon_state
      (trade_day ctx strat (uuid' d') (draw' d') day (anon_state st'))"
    using trade_day_anon [OF lim, where st = "anon_state st'" and uuid = "uuid d"
        and draw = "draw d" and uuid' = "uuid' d'" and draw' = "draw' d'"]
    by (simp add: Cons.prems(2))
  also have "\<dots> = map_sum id anon_state (trade_day ctx strat (uuid' d') (draw' d') day st')"
    by (rule trade_day_anon [OF lim, symmetric])
  finally have step: "map_sum id anon_state (trade_day ctx strat (uuid d) (draw d) day st) =
        map_sum id anon_state (trade_day ctx strat (uuid' d') (draw' d') day st')" .
  show ?case
  proof (cases "trade_day ctx strat (uuid d) (draw d) day st")
    case (Inl e)
    with step have "trade_day ctx strat (uuid' d') (draw' d') day st' = Inl e"
      by (cases "trade_day ctx strat (uuid' d') (draw' d') day st'") simp_all
    with Inl show ?thesis by simp
  next
    case (Inr t)
    with step obtain t' where t': "trade_day ctx strat (uuid' d') (draw' d') day st' = Inr t'"
      and eq: "anon_state t = anon_state t'"
      by (cases "trade_day ctx strat (uuid' d') (draw' d') day st'") simp_all
    from Cons.prems have "\<forall>day \<in> set days. within_limit ctx strat day" by simp
    from Cons.IH [OF this eq] Inr t' show ?thesis by simp
  qed
qed

text \<open>
  C9 (amended). Two runs of the simulation over the same dataset, parameters and
  initial account agree on everything but the random position ids (the final account,
  the trade log entry by entry, the capital log), whatever uuids and random numbers
  each run draws, when on every day the rows of the day have distinct indices and the
  rows that satisfy the buy predicate are no more than \<open>max_position_opens\<close>, so that
  no pool is sampled.
\<close>

theorem runs_agree_up_to_ids:
  assumes "list_all (within_limit ctx strat) (day_frames indexed df)"
  shows "map_sum id anon_state (trade ctx strat uuid draw indexed df acct) =
         map_sum id anon_state (trade ctx strat uuid' draw' indexed df acct)"
  unfolding trade_def
  by (rule trade_days_anon) (use assms in \<open>simp_all add: list_all_iff\<close>)

lemmas trade_defs = trade_def day_frames_def groupby_def new_trade_book_def trade_book_buy_def
  sample_def trade_day_defs

text \<open>
  C9 (as stated, refuted). Two runs over the same dataset, parameters and account that
  draw different uuids log different position ids; with a limit of one new open and
  two buy signals, two runs whose samples differ open different symbols.
\<close>

theorem determinism_counterexample:
  "map_sum id (\<lambda>st. map log_pos_id (trade_logs (sim_book st)))
     (trade (ex_context 8 10 5) (ex_strategy True) (\<lambda>d k. ''4f2a'') (\<lambda>d k. 0) True
        [ex_bar ''000001'' 10 10 10 10] (ex_account 0 5000)) = Inr [''Co-4f2a''] \<and>
   map_sum id (\<lambda>st. map log_pos_id (trade_logs (sim_book st)))
     (trade (ex_context 8 10 5) (ex_strategy True) (\<lambda>d k. ''9c1d'') (\<lambda>d k. 0) True
        [ex_bar ''000001'' 10 10 10 10] (ex_account 0 5000)) = Inr [''Co-9c1d''] \<and>
   map_sum id (\<lambda>st. map log_code (trade_logs (sim_book st)))
     (trade (ex_context 8 10 1) (ex_strategy True) (\<lambda>d k. ''4f2a'') (\<lambda>d k. 0) True
        [ex_bar ''000001'' 10 10 10 10, ex_bar ''000002'' 3 3 3 3] (ex_account 0 5000)) =
     Inr [''000001''] \<and>
   map_sum id (\<lambda>st. map log_code (trade_logs (sim_book st)))
     (trade (ex_context 8 10 1) (ex_strategy True) (\<lambda>d k. ''4f2a'') (\<lambda>d k. 1) True
        [ex_bar ''000001'' 10 10 10 10, ex_bar ''000002'' 3 3 3 3] (ex_account 0 5000)) =
     Inr [''000002'']"
proof -
  have a: "map_sum id (\<lambda>st. map log_pos_id (trade_logs (sim_book st)))
     (trade (ex_context 8 10 5) (ex_strategy True) (\<lambda>d k. ''4f2a'') (\<lambda>d k. 0) True
        [ex_bar ''000001'' 10 10 10 10] (ex_account 0 5000)) = Inr [''Co-4f2a'']"
    by (simp add: trade_defs)
  have b: "map_sum id (\<lambda>st. map log_pos_id (trade_logs (sim_book st)))
     (trade (ex_context 8 10 5) (ex_strategy True) (\<lambda>d k. ''9c1d'') (\<lambda>d k. 0) True
        [ex_bar ''000001'' 10 10 10 10] (ex_account 0 5000)) = Inr [''Co-9c1d'']"
    by (simp add: trade_defs)
  have c: "map_sum id (\<lambda>st. map log_code (trade_logs (sim_book st)))
     (trade (ex_context 8 10 1) (ex_strategy True) (\<lambda>d k. ''4f2a'') (\<lambda>d k. 0) True
        [ex_bar ''000001'' 10 10 10 10, ex_bar ''000002'' 3 3 3 3] (ex_account 0 5000)) =
     Inr [''000001'']"
    by (simp add: trade_defs)
  have d: "map_sum id (\<lambda>st. map log_code (trade_logs (sim_book st)))
     (trade (ex_context 8 10 1) (ex_strategy True) (\<lambda>d k. ''4f2a'') (\<lambda>d k. 1) True
        [ex_bar ''000001'' 10 10 10 10, ex_bar ''000002'' 3 3 3 3] (ex_account 0 5000)) =
     Inr [''000002'']"
    by (simp add: trade_defs)
  from a b c d show ?thesis by (intro conjI)
qed

theorem runs_agree_up_to_ids_witness:
  "list_all (within_limit (ex_context 8 10 5) (ex_strategy True))
     (day_frames True [ex_bar ''000001'' 10 10 10 10, ex_bar ''000002'' 3 3 3 3]) \<and>
   map_sum id anon_state
     (trade (ex_context 8 10 5) (ex_strategy True) (\<lambda>d k. ''4f2a'') (\<lambda>d k. 0) True
        [ex_bar ''000001'' 10 10 10 10, ex_bar ''000002'' 3 3 3 3] (ex_account 0 5000)) =
   map_sum id anon_state
     (trade (ex_context 8 10 5) (ex_strategy True) (\<lambda>d k. ''9c1d'') (\<lambda>d k. 1) True
        [ex_bar ''000001'' 10 10 10 10, ex_bar ''000002'' 3 3 3 3] (ex_account 0 5000))"
proof -
  have h: "list_all (within_limit (ex_context 8 10 5) (ex_strategy True))
     (day_frames True [ex_bar ''000001'' 10 10 10 10, ex_bar ''000002'' 3 3 3 3])"
    by (simp add: within_limit_def day_frames_def groupby_def bar_index_def)
  from runs_agree_up_to_ids [OF h] h show ?thesis by blast
qed

section \<open>The indicator pipeline\<close>

lemma concat_frames_drop_empty:
  "concat_frames (xs @ Inr [] # ys) = concat_frames (xs @ ys)"
  by (induction xs) (auto split: sum.splits)

lemma faulty_group_empty:
  assumes "factor_fault strat adf g"
  shows "adjust_then_compute strat (Some adf) indicators g = Inr []"
proof -
  from assms obtain b0 bs where g: "g = b0 # bs"
    by (cases g) (auto simp: factor_fault_def)
  let ?rows = "filter (\<lambda>f. fst f = bar_code b0) adf"
  let ?bars = "pre_process strat (sort_key bar_timestamp g)"
  show ?thesis
  proof (cases "?bars = []")
    case True
    with g show ?thesis by (simp add: adjust_then_compute_def Let_def)
  next
    case False
    show ?thesis
    proof (cases "?rows = []")
      case True
      with False g show ?thesis
        by (simp add: adjust_then_compute_def Let_def)
    next
      case rows: False
      with assms g obtain adjusted where
        adj: "adjust_prices ?bars (sort_key fst (map snd ?rows)) = Inr adjusted"
        and ex: "\<exists>r \<in> set adjusted. exceeds_limit (bar_pct_chg r)"
        by (auto simp: factor_fault_def Let_def split: sum.splits)
      from rows obtain r rs where "?rows = r # rs" by (cases ?rows) auto
      with False g adj ex show ?thesis
        by (simp add: adjust_then_compute_def Let_def)
    qed
  qed
qed

lemma holdings_tick_codes:
  "holdings_tick lk h = Inr h' \<Longrightarrow>
   map (\<lambda>(c, p). (c, code p)) h' = map (\<lambda>(c, p). (c, code p)) h"
  by (induction h arbitrary: h')
     (auto simp: update_price_def split: sum.splits)

lemma resolve_exits_codes:
  "resolve_exits ctx ts df ci h tb = Inr (h', sells, tb') \<Longrightarrow>
   map (\<lambda>(c, p). (c, code p)) h' = map (\<lambda>(c, p). (c, code p)) h \<and>
   code ` set sells \<subseteq> code ` snd ` set h \<and>
   log_code ` set (trade_logs tb') \<subseteq> log_code ` set (trade_logs tb) \<union> code ` snd ` set h"
proof (induction h arbitrary: tb h' sells tb')
  case Nil
  then show ?case by simp
next
  case (Cons e h)
  obtain c p where e: "e = (c, p)" by (cases e)
  show ?case
  proof (cases "row_at df (ts, c)")
    case None
    with Cons.prems e obtain h1 where
      r: "resolve_exits ctx ts df ci h tb = Inr (h1, sells, tb')" and h': "h' = (c, p) # h1"
      by (auto split: sum.splits)
    from Cons.IH [OF r] h' e show ?thesis by auto
  next
    case (Some tick)
    show ?thesis
    proof (cases "exit_decision ctx tick p ((ts, c) \<in> set ci)")
      case (Inl err)
      with Cons.prems e Some show ?thesis by simp
    next
      case (Inr dec)
      show ?thesis
      proof (cases dec)
        case None
        with Cons.prems e Some Inr obtain h1 where
          r: "resolve_exits ctx ts df ci h tb = Inr (h1, sells, tb')" and h': "h' = (c, p) # h1"
          by (auto split: sum.splits)
        from Cons.IH [OF r] h' e show ?thesis by auto
      next
        case (Some xa)
        obtain x action where xa: "xa = (x, action)" by (cases xa)
        from Cons.prems e \<open>row_at df (ts, c) = Some tick\<close> Inr Some xa
        obtain tb1 h1 s1 where
          b: "trade_book_sell ts (close p x) action tb = Inr tb1"
          and r: "resolve_exits ctx ts df ci h tb1 = Inr (h1, s1, tb')"
          and h': "h' = (c, close p x) # h1" and s: "sells = close p x # s1"
          by (auto split: sum.splits)
        from b have logs: "log_code ` set (trade_logs tb1) =
            insert (code p) (log_code ` set (trade_logs tb))"
          by (auto simp: trade_book_sell_def close_def split: sum.splits if_splits)
        from Cons.IH [OF r] h' s e logs show ?thesis
          by (auto simp: close_def)
      qed
    qed
  qed
qed

lemma set_fold_delete: "set (fold (\<lambda>p. AList.delete (code p)) ps h) \<subseteq> set h"
proof (induction ps arbitrary: h)
  case Nil
  then show ?case by simp
next
  case (Cons p ps)
  have "set (AList.delete (code p) h) \<subseteq> set h" by (auto simp: AList.delete_eq)
  with Cons.IH [of "AList.delete (code p) h"] show ?case by auto
qed

lemma set_update: "set (AList.update k v h) \<subseteq> insert (k, v) (set h)"
  by (induction h) auto

lemma set_fold_update:
  "set (fold (\<lambda>p. AList.update (code p) p) ps h) \<subseteq> set h \<union> (\<lambda>p. (code p, p)) ` set ps"
proof (induction ps arbitrary: h)
  case Nil
  then show ?case by simp
next
  case (Cons p ps)
  from Cons.IH [of "AList.update (code p) p h"] set_update [of "code p" p h]
  show ?case by auto
qed

lemma loc_rows_subset: "loc_rows df ixs = Inr rs \<Longrightarrow> set rs \<subseteq> set df"
proof (induction ixs arbitrary: rs)
  case Nil
  then show ?case by simp
next
  case (Cons i ixs)
  from Cons.prems obtain rest where rest: "loc_rows df ixs = Inr rest"
    and rs: "rs = filter (\<lambda>r. bar_index r = i) df @ rest"
    by (cases "filter (\<lambda>r. bar_index r = i) df"; cases "loc_rows df ixs") auto
  from Cons.IH [OF rest] rs show ?case by auto
qed

lemma redistribute_rows: "map row (fst (redistribute rem rs)) = map row rs"
  by (induction rs arbitrary: rem) (simp_all add: Let_def case_prod_beta)

lemma allocate_rows:
  assumes "allocate ctx pool_df budget = Inr (rows, rem)"
  shows "row ` set rows \<subseteq> set pool_df"
proof -
  let ?rows1 = "map (\<lambda>r. r\<lparr>trade_shares :=
      rat_of_int \<lfloor>budget / of_nat (length pool_df) / trade_price r\<rfloor>\<rparr>)
    (map (\<lambda>b. \<lparr>row = b, trade_price = bar_close b * trading_unit ctx, trade_shares = 0\<rparr>)
       pool_df)"
  let ?sorted = "sort_key (\<lambda>r. - trade_price r) ?rows1"
  from assms have "rows = fst (redistribute (budget - rows_cost ?rows1) ?sorted)"
    by (auto simp: allocate_def Let_def split: if_splits)
  then have "map row rows = map row ?sorted" by (simp only: redistribute_rows)
  then have "row ` set rows = row ` set ?sorted" by (metis set_map)
  also have "\<dots> = row ` set ?rows1" by simp
  also have "\<dots> \<subseteq> set pool_df" by auto
  finally show ?thesis .
qed

lemma generate_positions_codes:
  assumes "generate_positions ctx uuid k pool_df budget = Inr ps"
  shows "code ` set ps \<subseteq> bar_code ` set pool_df"
proof (cases "pool_df = [] \<or> budget \<le> 0")
  case True
  with assms show ?thesis by (auto simp: generate_positions_def)
next
  case False
  with assms obtain rows rem where al: "allocate ctx pool_df budget = Inr (rows, rem)"
    and ps: "ps = new_positions ctx uuid k (filter (\<lambda>r. 0 < trade_shares r) rows)"
    by (auto simp: generate_positions_def split: sum.splits)
  have "code ` set ps = set (map code ps)" by simp
  also have "\<dots> = (\<lambda>r. bar_code (row r)) ` set (filter (\<lambda>r. 0 < trade_shares r) rows)"
    unfolding ps new_positions_codes by simp
  also have "\<dots> \<subseteq> bar_code ` row ` set rows" by auto
  also have "\<dots> \<subseteq> bar_code ` set pool_df" using allocate_rows [OF al] by auto
  finally show ?thesis .
qed

lemma pool_rows_subset:
  assumes "get_pool_and_budget ctx a draw k df ixs budget = Inr (pool_df, b)"
  shows "set pool_df \<subseteq> set df"
proof -
  from assms obtain pool0 where loc: "loc_rows df ixs = Inr pool0"
    by (auto simp: get_pool_and_budget_def split: sum.splits)
  show ?thesis
  proof (cases "max_position_opens ctx < int (length pool0)")
    case True
    with assms loc have "pool_df = pick_rows draw k df (nat (max_position_opens ctx))"
      by (auto simp: get_pool_and_budget_def sample_def Let_def split: sum.splits if_splits)
    then show ?thesis by (simp add: set_pick_rows)
  next
    case False
    with assms loc have "pool_df = pool0"
      by (auto simp: get_pool_and_budget_def Let_def split: sum.splits if_splits)
    with loc_rows_subset [OF loc] show ?thesis by simp
  qed
qed

lemma trade_logs_fold_buy:
  "log_code ` set (trade_logs (fold (trade_book_buy ts) ps tb)) =
     log_code ` set (trade_logs tb) \<union> code ` set ps"
  by (induction ps arbitrary: tb) (auto simp: trade_book_buy_def)

lemma held_codes_map:
  fixes h h' :: holdings
  shows "map (\<lambda>(c, p). (c, code p)) h' = map (\<lambda>(c, p). (c, code p)) h \<Longrightarrow>
   code ` snd ` set h' = code ` snd ` set h"
proof -
  assume eq: "map (\<lambda>(c, p). (c, code p)) h' = map (\<lambda>(c, p). (c, code p)) h"
  have "code ` snd ` set x = snd ` set (map (\<lambda>(c, p). (c, code p)) x)" for x :: holdings
    by (induction x) auto
  from this [of h'] this [of h] eq show ?thesis by simp
qed

lemma buy_step_codes:
  assumes df: "bar_code ` set df \<subseteq> C" and inv: "codes_within C st"
    and step: "buy_step ctx uuid draw ts df ixs st = Inr st'"
  shows "codes_within C st'"
proof (cases "ixs = []")
  case True
  with step inv show ?thesis by (simp add: buy_step_def)
next
  case False
  with step obtain pb where pb: "get_pool_and_budget ctx (sim_account st) draw 0 df ixs
             (cash_amount (sim_account st)) = Inr pb"
    by (cases "get_pool_and_budget ctx (sim_account st) draw 0 df ixs
             (cash_amount (sim_account st))") (simp_all add: buy_step_def)
  obtain pool_df budget where pb2: "pb = (pool_df, budget)" by (cases pb)
  note pool = pb [unfolded pb2]
  from step False pool obtain ps where
    gen: "generate_positions ctx uuid 0 pool_df budget = Inr ps"
    and st': "st' = \<lparr>sim_account = account_buy (sim_account st) ps,
                     sim_book = fold (trade_book_buy ts) ps (sim_book st)\<rparr>"
    by (cases "generate_positions ctx uuid 0 pool_df budget") (auto simp: buy_step_def)
  from generate_positions_codes [OF gen] pool_rows_subset [OF pool] df
  have ps: "code ` set ps \<subseteq> C" by blast
  have sub: "set (holdings (account_buy (sim_account st) ps)) \<subseteq>
      set (holdings (sim_account st)) \<union> (\<lambda>p. (code p, p)) ` set ps"
    using set_fold_update [of ps "holdings (sim_account st)"]
    by (simp add: account_buy_def holdings_buy_def)
  have "code ` snd ` set (holdings (account_buy (sim_account st) ps)) \<subseteq>
      code ` snd ` (set (holdings (sim_account st)) \<union> (\<lambda>p. (code p, p)) ` set ps)"
    by (intro image_mono sub)
  also have "\<dots> = code ` snd ` set (holdings (sim_account st)) \<union> code ` set ps"
    by (simp add: image_Un image_image)
  finally have A: "code ` snd ` set (holdings (account_buy (sim_account st) ps)) \<subseteq>
      code ` snd ` set (holdings (sim_account st)) \<union> code ` set ps" .
  from inv have B: "code ` snd ` set (holdings (sim_account st)) \<subseteq> C"
    and l: "log_code ` set (trade_logs (sim_book st)) \<subseteq> C"
    by (simp_all add: codes_within_def)
  have H: "code ` snd ` set (holdings (account_buy (sim_account st) ps)) \<subseteq> C"
    by (rule subset_trans [OF A]) (simp add: B ps)
  have L: "log_code ` set (trade_logs (fold (trade_book_buy ts) ps (sim_book st))) \<subseteq> C"
    unfolding trade_logs_fold_buy by (simp add: l ps)
  from H L show ?thesis by (simp add: codes_within_def st')
qed

lemma trade_day_codes:
  assumes df: "bar_code ` set df \<subseteq> C" and inv: "codes_within C st"
    and day: "trade_day ctx strat uuid draw (ts, df) st = Inr st'"
  shows "codes_within C st'"
proof -
  let ?lk = "price_lookup ts df"
  from day obtain a1 where a1: "account_tick (sim_account st) ?lk = Inr a1"
    by (cases "account_tick (sim_account st) ?lk") (simp_all add: trade_day_def)
  let ?ci = "get_close_signals a1 strat df"
  from day a1 obtain res where
    "resolve_exits ctx ts df ?ci (holdings a1) (sim_book st) = Inr res"
    by (cases "resolve_exits ctx ts df ?ci (holdings a1) (sim_book st)")
       (simp_all add: trade_day_def Let_def)
  then obtain h2 sells tb2 where
    ex: "resolve_exits ctx ts df ?ci (holdings a1) (sim_book st) = Inr (h2, sells, tb2)"
    by (cases res) simp
  define a3 where "a3 = (if sells \<noteq> [] then account_sell (a1\<lparr>holdings := h2\<rparr>) sells
                         else a1\<lparr>holdings := h2\<rparr>)"
  let ?bi = "get_buy_signals a3 strat df"
  let ?s3 = "\<lparr>sim_account = a3, sim_book = tb2\<rparr>"
  have unf: "trade_day ctx strat uuid draw (ts, df) st =
      (case buy_step ctx uuid draw ts df ?bi ?s3 of
         Inl e \<Rightarrow> Inl e
       | Inr st4 \<Rightarrow>
           if ?bi \<noteq> [] \<or> ?ci \<noteq> []
           then Inr (st4\<lparr>sim_book := log_capitals ts (cash_amount (sim_account st4))
                  (get_total_worth (holdings (sim_account st4))) (sim_book st4)\<rparr>)
           else Inr st4)"
    unfolding trade_day_def Let_def prod.case a1 sum.case ex a3_def ..
  with day obtain st4 where s4: "buy_step ctx uuid draw ts df ?bi ?s3 = Inr st4"
    and st': "st' = st4 \<or> st' = st4\<lparr>sim_book := log_capitals ts (cash_amount (sim_account st4))
                  (get_total_worth (holdings (sim_account st4))) (sim_book st4)\<rparr>"
    by (cases "buy_step ctx uuid draw ts df ?bi ?s3") (simp_all split: if_splits)
  have h1: "code ` snd ` set (holdings a1) \<subseteq> C"
  proof (cases "holdings (sim_account st) = []")
    case True
    with a1 inv show ?thesis by (auto simp: account_tick_def codes_within_def)
  next
    case False
    with a1 obtain h' where t: "holdings_tick ?lk (holdings (sim_account st)) = Inr h'"
      and "a1 = (sim_account st)\<lparr>holdings := h'\<rparr>"
      by (cases "holdings_tick ?lk (holdings (sim_account st))")
         (auto simp: account_tick_def)
    with held_codes_map [OF holdings_tick_codes [OF t]] inv show ?thesis
      by (simp add: codes_within_def)
  qed
  from resolve_exits_codes [OF ex]
  have m: "map (\<lambda>(c, p). (c, code p)) h2 = map (\<lambda>(c, p). (c, code p)) (holdings a1)"
    and logs: "log_code ` set (trade_logs tb2) \<subseteq>
               log_code ` set (trade_logs (sim_book st)) \<union> code ` snd ` set (holdings a1)"
    by simp_all
  from held_codes_map [OF m] h1 have h2: "code ` snd ` set h2 \<subseteq> C" by simp
  have "set (holdings a3) \<subseteq> set h2"
    using set_fold_delete [of sells h2]
    by (simp add: a3_def account_sell_def holdings_sell_def)
  then have "code ` snd ` set (holdings a3) \<subseteq> code ` snd ` set h2"
    by (intro image_mono)
  then have h3: "code ` snd ` set (holdings a3) \<subseteq> C" using h2 by (rule subset_trans)
  from inv have l0: "log_code ` set (trade_logs (sim_book st)) \<subseteq> C"
    by (simp add: codes_within_def)
  have l3: "log_code ` set (trade_logs tb2) \<subseteq> C"
    by (rule subset_trans [OF logs]) (simp add: l0 h1)
  from h3 l3 have "codes_within C ?s3" by (simp add: codes_within_def)
  from buy_step_codes [OF df this s4] have "codes_within C st4" .
  moreover have "codes_within C (st4\<lparr>sim_book := log_capitals ts c v (sim_book st4)\<rparr>) =
      codes_within C st4" for c v
    by (simp add: codes_within_def log_capitals_def)
  ultimately show ?thesis using st' by blast
qed

lemma trade_days_codes:
  assumes "\<forall>day \<in> set days. bar_code ` set (snd day) \<subseteq> C" and "codes_within C st"
    and "trade_days ctx strat uuid draw d days st = Inr st'"
  shows "codes_within C st'"
  using assms
proof (induction days arbitrary: st d)
  case Nil
  then show ?case by simp
next
  case (Cons day days)
  obtain ts df where day: "day = (ts, df)" by (cases day)
  from Cons.prems(3) obtain st1 where
    s1: "trade_day ctx strat (uuid d) (draw d) (ts, df) st = Inr st1"
    and rest: "trade_days ctx strat uuid draw (Suc d) days st1 = Inr st'"
    unfolding day by (auto split: sum.splits)
  from Cons.prems(1) day have "bar_code ` set df \<subseteq> C" by simp
  from trade_day_codes [OF this Cons.prems(2) s1] have inv1: "codes_within C st1" .
  from Cons.prems(1) have "\<forall>day \<in> set days. bar_code ` set (snd day) \<subseteq> C" by simp
  from Cons.IH [OF this inv1 rest] show ?case .
qed

lemma day_frames_codes:
  "\<forall>day \<in> set (day_frames indexed df). bar_code ` set (snd day) \<subseteq> bar_code ` set df"
  by (auto simp: day_frames_def groupby_def)

lemma trades_on_dataset_symbols:
  assumes "holdings acct = []"
    and "trade ctx strat uuid draw indexed df acct = Inr st"
  shows "log_code ` set (trade_logs (sim_book st)) \<subseteq> bar_code ` set df"
proof -
  have "codes_within (bar_code ` set df) \<lparr>sim_account = acct, sim_book = new_trade_book\<rparr>"
    using assms(1) by (simp add: codes_within_def new_trade_book_def)
  from trade_days_codes [OF day_frames_codes this assms(2) [unfolded trade_def]]
  show ?thesis by (simp add: codes_within_def)
qed

text \<open>
  C7. With a factor table configured, a symbol whose rows show a data-integrity fault
  (the table has no row for the symbol, or the adjusted frame has a \<open>pct_chg\<close> beyond
  21 in absolute value) contributes an empty frame, not an exception, and the result
  of the pipeline over all symbols is the result over the other symbols alone. A run
  of the simulator from empty holdings over a dataset without rows of the symbol logs
  no trade of the symbol.
\<close>

theorem faulty_symbol_dropped:
  assumes "factor_fault strat adf g"
  shows "adjust_then_compute strat (Some adf) ind_resolv g = Inr [] \<and>
         process_groups strat (Some adf) ind_resolv (gs1 @ g # gs2) =
           process_groups strat (Some adf) ind_resolv (gs1 @ gs2) \<and>
         (holdings acct = [] \<and> bar_code (hd g) \<notin> bar_code ` set df \<and>
          trade ctx strat uuid draw indexed df acct = Inr st \<longrightarrow>
          bar_code (hd g) \<notin> log_code ` set (trade_logs (sim_book st)))"
  using faulty_group_empty [OF assms, of ind_resolv]
    trades_on_dataset_symbols [of acct ctx strat uuid draw indexed df st]
  by (auto simp: process_groups_def concat_frames_drop_empty)

lemmas pipeline_defs =
  factor_fault_def adjust_prices_def assign_factor_value_to_day_def advance.simps scale_bar_def
  round_bar_def round_xfloat_def pct_of_def exceeds_limit_def
  process_groups_def adjust_then_compute_def has_column_def base_columns_def
  set_column_def round_defs

theorem faulty_symbol_dropped_witness:
  "factor_fault (ex_strategy True) ex_factors [ex_bar ''000001'' 10 10 10 10] \<and>
   factor_fault (ex_strategy True) ex_factors
     [ex_bar ''000003'' 10 10 10 10,
      (ex_bar ''000003'' 13 13 13 13)\<lparr>bar_timestamp := ''2023-01-05''\<rparr>] \<and>
   process_groups (ex_strategy True) (Some ex_factors) [(''ma'', [''close''])]
     [[ex_bar ''000001'' 10 10 10 10], [ex_bar ''000002'' 3 3 3 3],
      [ex_bar ''000003'' 10 10 10 10,
       (ex_bar ''000003'' 13 13 13 13)\<lparr>bar_timestamp := ''2023-01-05''\<rparr>]] =
   Inr [(ex_bar ''000002'' 3 3 3 3)\<lparr>bar_indicators := [(''ma'', 3)]\<rparr>] \<and>
   map_sum id (\<lambda>st. map log_code (trade_logs (sim_book st)))
     (trade (ex_context 8 10 5) (ex_strategy True) (\<lambda>d k. ''4f2a'') (\<lambda>d k. 0) True
        [(ex_bar ''000002'' 3 3 3 3)\<lparr>bar_indicators := [(''ma'', 3)]\<rparr>]
        (ex_account 0 5000)) = Inr [''000002''] \<and>
   ''000001'' \<notin> set [''000002'']"
proof -
  let ?s = "ex_strategy True"
  let ?g1 = "[ex_bar ''000001'' 10 10 10 10]"
  let ?g2 = "[ex_bar ''000002'' 3 3 3 3]"
  let ?g3 = "[ex_bar ''000003'' 10 10 10 10,
      (ex_bar ''000003'' 13 13 13 13)\<lparr>bar_timestamp := ''2023-01-05''\<rparr>]"
  let ?ind = "[(''ma'', [''close''])]"
  let ?df = "[(ex_bar ''000002'' 3 3 3 3)\<lparr>bar_indicators := [(''ma'', 3)]\<rparr>]"
  let ?run = "trade (ex_context 8 10 5) ?s (\<lambda>d k. ''4f2a'') (\<lambda>d k. 0) True ?df
                (ex_account 0 5000)"
  have f1: "factor_fault ?s ex_factors ?g1" by (simp add: factor_fault_def)
  have f3: "factor_fault ?s ex_factors ?g3" by (simp add: pipeline_defs)
  have ok: "process_groups ?s (Some ex_factors) ?ind [?g2] = Inr ?df"
    by (simp add: pipeline_defs)
  obtain st where run: "?run = Inr st"
    by (cases ?run) (simp_all add: trade_defs)
  then have logs: "map_sum id (\<lambda>st. map log_code (trade_logs (sim_book st))) ?run =
      Inr (map log_code (trade_logs (sim_book st)))" by simp
  have codes: "map_sum id (\<lambda>st. map log_code (trade_logs (sim_book st))) ?run =
      Inr [''000002'']"
    by (simp add: trade_defs)
  from faulty_symbol_dropped [OF f1, of ?ind "[]" "[?g2, ?g3]" "ex_account 0 5000" ?df
      "ex_context 8 10 5" "\<lambda>d k. ''4f2a''" "\<lambda>d k. 0" True st] run
  have p1: "process_groups ?s (Some ex_factors) ?ind [?g1, ?g2, ?g3] =
      process_groups ?s (Some ex_factors) ?ind [?g2, ?g3]"
    and none: "''000001'' \<notin> log_code ` set (trade_logs (sim_book st))" by simp_all
  from faulty_symbol_dropped [OF f3, of ?ind "[?g2]" "[]"]
  have "process_groups ?s (Some ex_factors) ?ind [?g2, ?g3] =
      process_groups ?s (Some ex_factors) ?ind [?g2]" by simp
  with p1 ok have "process_groups ?s (Some ex_factors) ?ind [?g1, ?g2, ?g3] = Inr ?df"
    by simp
  with f1 f3 codes show ?thesis by simp
qed

end
